theory Spec2Isabelle
  imports Complex_Main "HOL-Library.AList" "HOL-Library.Multiset"
begin

section \<open>SimpleEconomy: the account ledger of Economy.go\<close>

text \<open>
  A shallow embedding of \<^verbatim>\<open>src/SimpleEconomy/src/Economy.go\<close>: the account store
  (\<^verbatim>\<open>playerData\<close>), its balance operations (\<^verbatim>\<open>getAccount\<close>, \<^verbatim>\<open>createAccount\<close>,
  \<^verbatim>\<open>getBalance\<close>, \<^verbatim>\<open>setBalance\<close>, \<^verbatim>\<open>addMoney\<close>, \<^verbatim>\<open>subtractMoney\<close>,
  \<^verbatim>\<open>transferMoney\<close>), the ranking (\<^verbatim>\<open>updateTopPlayers\<close>) and the audit log
  (\<^verbatim>\<open>logTransaction\<close>, \<^verbatim>\<open>formatMoney\<close>). One goroutine runs the calls one after
  the other; the reader/writer mutex is part of the state, because the code takes and
  releases it on every path and a lock that is never granted stops the call.
\<close>

subsection \<open>float64\<close>

text \<open>
  Balances and amounts are Go \<^verbatim>\<open>float64\<close> values (IEEE 754 binary64). A value is a NaN,
  an infinity (\<open>Infinity True\<close> is the negative one) or a finite number \<open>Fin s m\<close> with
  sign \<open>s\<close> (\<open>True\<close> for negative, so \<open>Fin True 0\<close> is the negative zero) and magnitude
  \<open>m\<close>, held as the exact rational it stands for. Comparisons follow IEEE 754: every
  comparison with a NaN is false, and the two zeros are equal. The type has more values
  than Go's (a magnitude that no binary64 number has); what is proved of all values of
  the type holds of Go's.
\<close>

datatype float64 = NaN | Infinity bool | Fin bool rat

definition signedVal :: "bool \<Rightarrow> rat \<Rightarrow> rat" where
  "signedVal s m = (if s then - m else m)"

fun flt :: "float64 \<Rightarrow> float64 \<Rightarrow> bool" where
  "flt NaN y = False"
| "flt x NaN = False"
| "flt (Infinity s) (Infinity t) = (s \<and> \<not> t)"
| "flt (Infinity s) (Fin t n) = s"
| "flt (Fin s m) (Infinity t) = (\<not> t)"
| "flt (Fin s m) (Fin t n) = (signedVal s m < signedVal t n)"

fun fle :: "float64 \<Rightarrow> float64 \<Rightarrow> bool" where
  "fle NaN y = False"
| "fle x NaN = False"
| "fle (Infinity s) (Infinity t) = (s \<or> s = t)"
| "fle (Infinity s) (Fin t n) = s"
| "fle (Fin s m) (Infinity t) = (\<not> t)"
| "fle (Fin s m) (Fin t n) = (signedVal s m \<le> signedVal t n)"

text \<open>
  Arithmetic rounds the exact result to the nearest binary64 value, ties to the even
  significand: \<open>round64\<close> scales the magnitude by the unit in the last place of its binade
  (the exponent is at least \<open>- 1022\<close>, which gives the subnormal numbers their fixed unit
  \<open>2^(- 1074)\<close>), rounds to an integer and scales back; a rounded magnitude of \<open>2^1024\<close> or
  more overflows to the infinity.
\<close>

definition pow2 :: "int \<Rightarrow> rat" where
  "pow2 e = (if 0 \<le> e then 2 ^ nat e else 1 / 2 ^ nat (- e))"

function floorLog2 :: "int \<Rightarrow> int" where
  "floorLog2 n = (if n < 2 then 0 else 1 + floorLog2 (n div 2))"
  by pat_completeness auto
termination
  by (relation "measure nat") auto

declare floorLog2.simps [simp del]

definition ilog2 :: "rat \<Rightarrow> int" where
  "ilog2 m = (if 1 \<le> m then floorLog2 \<lfloor>m\<rfloor> else - 1 - floorLog2 (\<lceil>1 / m\<rceil> - 1))"

definition roundHalfEven :: "rat \<Rightarrow> int" where
  "roundHalfEven q =
     (if q - of_int \<lfloor>q\<rfloor> < 1 / 2 then \<lfloor>q\<rfloor>
      else if 1 / 2 < q - of_int \<lfloor>q\<rfloor> then \<lfloor>q\<rfloor> + 1
      else if even \<lfloor>q\<rfloor> then \<lfloor>q\<rfloor> else \<lfloor>q\<rfloor> + 1)"

definition ulpExp :: "rat \<Rightarrow> int" where
  "ulpExp m = max (ilog2 m) (- 1022) - 52"

definition roundMag :: "rat \<Rightarrow> rat" where
  "roundMag m = of_int (roundHalfEven (m / pow2 (ulpExp m))) * pow2 (ulpExp m)"

definition round64 :: "rat \<Rightarrow> float64" where
  "round64 r = (if 2 ^ 1024 \<le> roundMag \<bar>r\<bar> then Infinity (r < 0) else Fin (r < 0) (roundMag \<bar>r\<bar>))"

fun fadd :: "float64 \<Rightarrow> float64 \<Rightarrow> float64" where
  "fadd NaN y = NaN"
| "fadd x NaN = NaN"
| "fadd (Infinity s) (Infinity t) = (if s = t then Infinity s else NaN)"
| "fadd (Infinity s) (Fin t n) = Infinity s"
| "fadd (Fin s m) (Infinity t) = Infinity t"
| "fadd (Fin s m) (Fin t n) =
     (if signedVal s m + signedVal t n = 0 then Fin (s \<and> t) 0
      else round64 (signedVal s m + signedVal t n))"

fun fneg :: "float64 \<Rightarrow> float64" where
  "fneg NaN = NaN"
| "fneg (Infinity s) = Infinity (\<not> s)"
| "fneg (Fin s m) = Fin (\<not> s) m"

definition fsub :: "float64 \<Rightarrow> float64 \<Rightarrow> float64" where
  "fsub x y = fadd x (fneg y)"

definition zero64 :: float64 where
  "zero64 = Fin False 0"

subsection \<open>Strings, times and formatting\<close>

text \<open>
  \<^verbatim>\<open>strings.ToLower\<close> on the bytes of an ASCII user name; Go's function also maps the
  letters beyond ASCII, which are several bytes each here and are left as they are.
\<close>

definition toLowerChar :: "char \<Rightarrow> char" where
  "toLowerChar c =
     (if 65 \<le> (of_char c :: nat) \<and> (of_char c :: nat) \<le> 90 then char_of (of_char c + 32 :: nat) else c)"

definition ToLower :: "string \<Rightarrow> string" where
  "ToLower s = map toLowerChar s"

text \<open>A reading of the wall clock, in the fields that the log's layout prints.\<close>

record Time =
  Year :: nat
  Month :: nat
  Day :: nat
  Hour :: nat
  Minute :: nat
  Second :: nat

definition digitChar :: "nat \<Rightarrow> char" where
  "digitChar d = char_of (48 + d)"

function showNat :: "nat \<Rightarrow> string" where
  "showNat n = (if n < 10 then [digitChar n] else showNat (n div 10) @ [digitChar (n mod 10)])"
  by pat_completeness auto
termination
  by (relation "measure id") auto

declare showNat.simps [simp del]

definition padZero :: "nat \<Rightarrow> string \<Rightarrow> string" where
  "padZero w s = replicate (w - length s) (CHR ''0'') @ s"

text \<open>\<^verbatim>\<open>Timestamp.Format("2006-01-02 15:04:05")\<close>.\<close>

definition formatTime :: "Time \<Rightarrow> string" where
  "formatTime t =
     padZero 4 (showNat (Year t)) @ ''-'' @ padZero 2 (showNat (Month t)) @ ''-'' @
     padZero 2 (showNat (Day t)) @ '' '' @ padZero 2 (showNat (Hour t)) @ '':'' @
     padZero 2 (showNat (Minute t)) @ '':'' @ padZero 2 (showNat (Second t))"

text \<open>
  The verb \<^verbatim>\<open>%.2f\<close>: the exact value rounded to two decimals, ties to even, with the
  sign of a negative number (and of the negative zero) in front; \<^verbatim>\<open>NaN\<close>, \<^verbatim>\<open>+Inf\<close>
  and \<^verbatim>\<open>-Inf\<close> for the special values.
\<close>

definition formatFloat2 :: "float64 \<Rightarrow> string" where
  "formatFloat2 x =
     (case x of
        NaN \<Rightarrow> ''NaN''
      | Infinity s \<Rightarrow> (if s then ''-Inf'' else ''+Inf'')
      | Fin s m \<Rightarrow>
          (if s then ''-'' else '''') @ showNat (nat (roundHalfEven (m * 100)) div 100) @ ''.'' @
          padZero 2 (showNat (nat (roundHalfEven (m * 100)) mod 100)))"

subsection \<open>The data of the plugin\<close>

record PlayerAccount =
  Username :: string
  Balance :: float64
  LastSeen :: Time
  TotalEarned :: float64
  TotalSpent :: float64

record Config =
  DefaultBalance :: float64
  MaxBalance :: float64
  CurrencySymbol :: string
  CurrencyName :: string
  EnableLogging :: bool
  TopPlayersLimit :: int

datatype TransactionType = ADD | SUBTRACT | SET | TRANSFER

text \<open>The constants are declared with \<^verbatim>\<open>iota\<close>; \<^verbatim>\<open>%d\<close> prints their numbers.\<close>

fun typeNumber :: "TransactionType \<Rightarrow> nat" where
  "typeNumber ADD = 0"
| "typeNumber SUBTRACT = 1"
| "typeNumber SET = 2"
| "typeNumber TRANSFER = 3"

record Transaction =
  From :: string
  To :: string
  Amount :: float64
  Type :: TransactionType
  Timestamp :: Time
  Reason :: string

text \<open>
  \<^verbatim>\<open>sync.RWMutex\<close>: held by a number of readers (\<open>Readers 0\<close> is the free mutex) or by
  one writer. It is not reentrant.
\<close>

datatype RWMutex = Readers nat | Writer

text \<open>
  The plugin and what it reaches outside itself. \<open>playerData\<close> is the map from the
  lower-case name to the account it points to, as the list of its entries in the order a
  \<^verbatim>\<open>range\<close> visits them (Go leaves that order open; no statement below depends on it
  but the example of a ranking). An account is reached through one key only, so the key
  stands for the pointer: \<open>topPlayers\<close> is the list of the keys of the accounts the slice
  points to. \<open>transactionsLog\<close> is the content of \<^verbatim>\<open>transactions.log\<close>, \<open>None\<close> when
  the file cannot be opened; \<open>clock\<close> gives the successive readings of \<^verbatim>\<open>time.Now()\<close>
  and \<open>ticks\<close> counts the readings taken. The fields \<^verbatim>\<open>name\<close>, \<^verbatim>\<open>version\<close> and
  \<^verbatim>\<open>dataFolder\<close> are constants of the program and play no part in the ledger.
\<close>

record EconomyPlugin =
  playerData :: "(string \<times> PlayerAccount) list"
  mutex :: RWMutex
  config :: Config
  topPlayers :: "string list"
  transactionsLog :: "string option"
  clock :: "nat \<Rightarrow> Time"
  ticks :: nat

text \<open>
  How a call ends: it returns (\<open>Ok\<close>), it waits for the mutex for ever in the state given
  (\<open>Blocked\<close>: with one goroutine nobody is left to release the lock, and the Go run time
  stops the program), or it panics.
\<close>

datatype 'a result = Ok 'a | Blocked EconomyPlugin | Panic

definition andThen :: "'a result \<Rightarrow> ('a \<Rightarrow> 'b result) \<Rightarrow> 'b result" where
  "andThen r f = (case r of Ok x \<Rightarrow> f x | Blocked s \<Rightarrow> Blocked s | Panic \<Rightarrow> Panic)"

definition Lock :: "EconomyPlugin \<Rightarrow> EconomyPlugin result" where
  "Lock e =
     (case mutex e of
        Readers n \<Rightarrow> (if n = 0 then Ok (e\<lparr>mutex := Writer\<rparr>) else Blocked e)
      | Writer \<Rightarrow> Blocked e)"

definition Unlock :: "EconomyPlugin \<Rightarrow> EconomyPlugin result" where
  "Unlock e = (case mutex e of Writer \<Rightarrow> Ok (e\<lparr>mutex := Readers 0\<rparr>) | Readers n \<Rightarrow> Panic)"

definition RLock :: "EconomyPlugin \<Rightarrow> EconomyPlugin result" where
  "RLock e =
     (case mutex e of
        Readers n \<Rightarrow> Ok (e\<lparr>mutex := Readers (n + 1)\<rparr>)
      | Writer \<Rightarrow> Blocked e)"

definition RUnlock :: "EconomyPlugin \<Rightarrow> EconomyPlugin result" where
  "RUnlock e =
     (case mutex e of
        Readers n \<Rightarrow> (if n = 0 then Panic else Ok (e\<lparr>mutex := Readers (n - 1)\<rparr>))
      | Writer \<Rightarrow> Panic)"

definition timeNow :: "EconomyPlugin \<Rightarrow> Time \<times> EconomyPlugin" where
  "timeNow e = (clock e (ticks e), e\<lparr>ticks := ticks e + 1\<rparr>)"

definition defaultConfig :: Config where
  "defaultConfig =
     \<lparr>DefaultBalance = Fin False 1000, MaxBalance = Fin False 1000000, CurrencySymbol = ''$'',
      CurrencyName = ''Coins'', EnableLogging = True, TopPlayersLimit = 10\<rparr>"

text \<open>\<^verbatim>\<open>NewEconomyPlugin\<close>, with the clock of the machine and an empty log file.\<close>

definition NewEconomyPlugin :: "(nat \<Rightarrow> Time) \<Rightarrow> EconomyPlugin" where
  "NewEconomyPlugin c =
     \<lparr>playerData = [], mutex = Readers 0, config = defaultConfig, topPlayers = [],
      transactionsLog = Some [], clock = c, ticks = 0\<rparr>"

subsection \<open>The ranking\<close>

text \<open>
  \<^verbatim>\<open>updateTopPlayers\<close> collects the pointers of the map in a slice and sorts it with two
  nested loops that swap neighbours out of order. An element of \<open>players\<close> is a key with
  the account it points to; the loops only read \<^verbatim>\<open>Balance\<close>.
\<close>

definition swapAt :: "nat \<Rightarrow> 'a list \<Rightarrow> 'a list" where
  "swapAt j players = players[j := players ! (j + 1), j + 1 := players ! j]"

function bubbleInner :: "nat \<Rightarrow> nat \<Rightarrow> (string \<times> PlayerAccount) list \<Rightarrow> (string \<times> PlayerAccount) list" where
  "bubbleInner i j players =
     (if int j < int (length players) - 1 - int i
      then bubbleInner i (j + 1)
             (if flt (Balance (snd (players ! j))) (Balance (snd (players ! (j + 1))))
              then swapAt j players else players)
      else players)"
  by pat_completeness auto
termination
  by (relation "measure (\<lambda>(i, j, players). length players - j)") (auto simp: swapAt_def)

declare bubbleInner.simps [simp del]

lemma length_bubbleInner: "length (bubbleInner i j players) = length players"
proof (induction i j players rule: bubbleInner.induct)
  case (1 i j players)
  show ?case
  proof (cases "int j < int (length players) - 1 - int i")
    case True
    then show ?thesis
      using "1.IH" by (subst bubbleInner.simps) (simp add: swapAt_def)
  next
    case False
    then show ?thesis
      by (subst bubbleInner.simps) simp
  qed
qed

function bubbleOuter :: "nat \<Rightarrow> (string \<times> PlayerAccount) list \<Rightarrow> (string \<times> PlayerAccount) list" where
  "bubbleOuter i players =
     (if i < length players then bubbleOuter (i + 1) (bubbleInner i 0 players) else players)"
  by pat_completeness auto
termination
  by (relation "measure (\<lambda>(i, players). length players - i)") (auto simp: length_bubbleInner)

declare bubbleOuter.simps [simp del]

text \<open>
  The slice expression \<^verbatim>\<open>players[:limit]\<close> panics for a negative \<^verbatim>\<open>limit\<close>. The read
  lock is taken first and released by the deferred call.
\<close>

definition updateTopPlayers :: "EconomyPlugin \<Rightarrow> EconomyPlugin result" where
  "updateTopPlayers e =
     andThen (RLock e) (\<lambda>e1.
       let players = bubbleOuter 0 (playerData e1);
           limit = (if int (length players) < TopPlayersLimit (config e1)
                    then int (length players) else TopPlayersLimit (config e1))
       in if limit < 0 then Panic
          else RUnlock (e1\<lparr>topPlayers := map fst (take (nat limit) players)\<rparr>))"

subsection \<open>The audit log\<close>

text \<open>
  \<^verbatim>\<open>fmt.Sprintf("[%s] %s -> %s: %s%.2f (Type: %d, Reason: %s)\n", ...)\<close>; the entry is
  appended to the file, and dropped when the file cannot be opened.
\<close>

definition logEntry :: "EconomyPlugin \<Rightarrow> Transaction \<Rightarrow> string" where
  "logEntry e transaction =
     ''['' @ formatTime (Timestamp transaction) @ ''] '' @ From transaction @ '' -> '' @
     To transaction @ '': '' @ CurrencySymbol (config e) @ formatFloat2 (Amount transaction) @
     '' (Type: '' @ showNat (typeNumber (Type transaction)) @ '', Reason: '' @
     Reason transaction @ '')'' @ [CHR 0x0A]"

definition logTransaction :: "EconomyPlugin \<Rightarrow> Transaction \<Rightarrow> EconomyPlugin" where
  "logTransaction e transaction =
     (case transactionsLog e of
        None \<Rightarrow> e
      | Some content \<Rightarrow> e\<lparr>transactionsLog := Some (content @ logEntry e transaction)\<rparr>)"

definition formatMoney :: "EconomyPlugin \<Rightarrow> float64 \<Rightarrow> string" where
  "formatMoney e amount = CurrencySymbol (config e) @ formatFloat2 amount"

text \<open>
  The tail of each mutating operation: when \<^verbatim>\<open>EnableLogging\<close> is set, a transaction
  stamped with a fresh reading of the clock is logged.
\<close>

definition logIfEnabled ::
  "EconomyPlugin \<Rightarrow> string \<Rightarrow> string \<Rightarrow> float64 \<Rightarrow> TransactionType \<Rightarrow> string \<Rightarrow> EconomyPlugin" where
  "logIfEnabled e from to amount type reason =
     (if EnableLogging (config e)
      then logTransaction (snd (timeNow e))
             \<lparr>From = from, To = to, Amount = amount, Type = type,
              Timestamp = fst (timeNow e), Reason = reason\<rparr>
      else e)"

subsection \<open>Accounts\<close>

text \<open>
  \<^verbatim>\<open>createAccount\<close> takes the write lock, stores the new account, and calls
  \<^verbatim>\<open>updateTopPlayers\<close> before the deferred \<^verbatim>\<open>Unlock\<close> runs. The pointer it returns is
  the key of the account.
\<close>

definition createAccount :: "EconomyPlugin \<Rightarrow> string \<Rightarrow> (string \<times> EconomyPlugin) result" where
  "createAccount e username =
     andThen (Lock e) (\<lambda>e1.
       let account = \<lparr>Username = username, Balance = DefaultBalance (config e1),
                      LastSeen = fst (timeNow e1), TotalEarned = DefaultBalance (config e1),
                      TotalSpent = zero64\<rparr>;
           e2 = (snd (timeNow e1))\<lparr>playerData :=
                   AList.update (ToLower username) account (playerData e1)\<rparr>
       in andThen (updateTopPlayers e2) (\<lambda>e3.
            andThen (Unlock e3) (\<lambda>e4. Ok (ToLower username, e4))))"

definition getAccount :: "EconomyPlugin \<Rightarrow> string \<Rightarrow> (string \<times> EconomyPlugin) result" where
  "getAccount e username =
     andThen (RLock e) (\<lambda>e1.
       andThen (RUnlock e1) (\<lambda>e2.
         case map_of (playerData e1) (ToLower username) of
           None \<Rightarrow> createAccount e2 username
         | Some found \<Rightarrow>
             Ok (ToLower username,
                 (snd (timeNow e2))\<lparr>playerData :=
                    AList.map_entry (ToLower username) (\<lambda>a. a\<lparr>LastSeen := fst (timeNow e2)\<rparr>)
                      (playerData e2)\<rparr>)))"

text \<open>Reading a field through a pointer; a pointer to no account would be a nil dereference.\<close>

definition deref :: "EconomyPlugin \<Rightarrow> string \<Rightarrow> PlayerAccount result" where
  "deref e account = (case map_of (playerData e) account of None \<Rightarrow> Panic | Some a \<Rightarrow> Ok a)"

text \<open>Writing through a pointer.\<close>

definition modify :: "string \<Rightarrow> (PlayerAccount \<Rightarrow> PlayerAccount) \<Rightarrow> EconomyPlugin \<Rightarrow> EconomyPlugin" where
  "modify account f e = e\<lparr>playerData := AList.map_entry account f (playerData e)\<rparr>"

definition getBalance :: "EconomyPlugin \<Rightarrow> string \<Rightarrow> (float64 \<times> EconomyPlugin) result" where
  "getBalance e username =
     andThen (getAccount e username) (\<lambda>(account, e1).
       andThen (deref e1 account) (\<lambda>a. Ok (Balance a, e1)))"

subsection \<open>The balance operations\<close>

definition setBalance :: "EconomyPlugin \<Rightarrow> string \<Rightarrow> float64 \<Rightarrow> (bool \<times> EconomyPlugin) result" where
  "setBalance e username amount =
     (if flt amount zero64 \<or> flt (MaxBalance (config e)) amount then Ok (False, e)
      else
        andThen (getAccount e username) (\<lambda>(account, e1).
        andThen (Lock e1) (\<lambda>e2.
        andThen (Unlock (modify account (\<lambda>a. a\<lparr>Balance := amount\<rparr>) e2)) (\<lambda>e3.
        andThen (updateTopPlayers e3) (\<lambda>e4.
          Ok (True, logIfEnabled e4 [] username amount SET ''Balance set by admin''))))))"

definition addMoney :: "EconomyPlugin \<Rightarrow> string \<Rightarrow> float64 \<Rightarrow> (bool \<times> EconomyPlugin) result" where
  "addMoney e username amount =
     (if fle amount zero64 then Ok (False, e)
      else
        andThen (getAccount e username) (\<lambda>(account, e1).
        andThen (Lock e1) (\<lambda>e2.
        andThen (deref e2 account) (\<lambda>a.
          if flt (MaxBalance (config e2)) (fadd (Balance a) amount)
          then andThen (Unlock e2) (\<lambda>e3. Ok (False, e3))
          else
            andThen (Unlock (modify account
                       (\<lambda>a. a\<lparr>Balance := fadd (Balance a) amount,
                               TotalEarned := fadd (TotalEarned a) amount\<rparr>) e2)) (\<lambda>e3.
            andThen (updateTopPlayers e3) (\<lambda>e4.
              Ok (True, logIfEnabled e4 [] username amount ADD ''Money added'')))))))"

definition subtractMoney :: "EconomyPlugin \<Rightarrow> string \<Rightarrow> float64 \<Rightarrow> (bool \<times> EconomyPlugin) result" where
  "subtractMoney e username amount =
     (if fle amount zero64 then Ok (False, e)
      else
        andThen (getAccount e username) (\<lambda>(account, e1).
        andThen (Lock e1) (\<lambda>e2.
        andThen (deref e2 account) (\<lambda>a.
          if flt (Balance a) amount
          then andThen (Unlock e2) (\<lambda>e3. Ok (False, e3))
          else
            andThen (Unlock (modify account
                       (\<lambda>a. a\<lparr>Balance := fsub (Balance a) amount,
                               TotalSpent := fadd (TotalSpent a) amount\<rparr>) e2)) (\<lambda>e3.
            andThen (updateTopPlayers e3) (\<lambda>e4.
              Ok (True, logIfEnabled e4 username [] amount SUBTRACT ''Money subtracted'')))))))"

definition transferMoney ::
  "EconomyPlugin \<Rightarrow> string \<Rightarrow> string \<Rightarrow> float64 \<Rightarrow> (bool \<times> EconomyPlugin) result" where
  "transferMoney e from to amount =
     (if fle amount zero64 \<or> ToLower from = ToLower to then Ok (False, e)
      else
        andThen (getAccount e from) (\<lambda>(fromAccount, e1).
        andThen (getAccount e1 to) (\<lambda>(toAccount, e2).
        andThen (Lock e2) (\<lambda>e3.
        andThen (deref e3 fromAccount) (\<lambda>fa.
          if flt (Balance fa) amount
          then andThen (Unlock e3) (\<lambda>e4. Ok (False, e4))
          else
            andThen (deref e3 toAccount) (\<lambda>ta.
              if flt (MaxBalance (config e3)) (fadd (Balance ta) amount)
              then andThen (Unlock e3) (\<lambda>e4. Ok (False, e4))
              else
                andThen (Unlock
                   (modify toAccount
                      (\<lambda>a. a\<lparr>Balance := fadd (Balance a) amount,
                              TotalEarned := fadd (TotalEarned a) amount\<rparr>)
                   (modify fromAccount
                      (\<lambda>a. a\<lparr>Balance := fsub (Balance a) amount,
                              TotalSpent := fadd (TotalSpent a) amount\<rparr>) e3))) (\<lambda>e4.
                andThen (updateTopPlayers e4) (\<lambda>e5.
                  Ok (True, logIfEnabled e5 from to amount TRANSFER ''Money transfer'')))))))))"

subsection \<open>Loading the accounts\<close>

text \<open>
  \<^verbatim>\<open>loadPlayerData\<close>, given what \<^verbatim>\<open>players.json\<close> holds: \<open>None\<close> when the file is
  missing or cannot be read (the function returns at once), else the entries that
  \<^verbatim>\<open>json.Unmarshal\<close> stores in the map, after which the ranking is computed.
\<close>

definition loadPlayerData ::
  "EconomyPlugin \<Rightarrow> (string \<times> PlayerAccount) list option \<Rightarrow> EconomyPlugin result" where
  "loadPlayerData e file =
     (case file of
        None \<Rightarrow> Ok e
      | Some entries \<Rightarrow>
          updateTopPlayers
            (e\<lparr>playerData := fold (\<lambda>(k, a). AList.update k a) entries (playerData e)\<rparr>))"

subsection \<open>Observations and example states\<close>

text \<open>What an observer reads off a state: the balance under each key, and the balances
  that \<^verbatim>\<open>topCommand\<close> prints, in the order of the ranking.\<close>

definition balances :: "EconomyPlugin \<Rightarrow> (string \<times> float64) list" where
  "balances e = map (\<lambda>(k, a). (k, Balance a)) (playerData e)"

definition topBalances :: "EconomyPlugin \<Rightarrow> float64 list" where
  "topBalances e = List.map_filter (\<lambda>k. map_option Balance (map_of (playerData e) k)) (topPlayers e)"

text \<open>The balance invariant of the data model: every balance \<open>b\<close> has
  \<open>0 \<le> b \<le> maxBalance\<close>. A ranking is in order when its balances are non-increasing.\<close>

definition inRange :: "float64 \<Rightarrow> float64 \<Rightarrow> bool" where
  "inRange mx x = (fle zero64 x \<and> fle x mx)"

definition balancesInRange :: "EconomyPlugin \<Rightarrow> bool" where
  "balancesInRange e =
     list_all (\<lambda>p. inRange (MaxBalance (config e)) (Balance (snd p))) (playerData e)"

definition descending :: "float64 list \<Rightarrow> bool" where
  "descending bs = sorted_wrt (\<lambda>x y. fle y x) bs"

text \<open>A ceiling that is a finite binary64 number: not negative, below \<open>2^1024\<close>, and
  left as it is by the rounding.\<close>

definition finiteBound :: "float64 \<Rightarrow> bool" where
  "finiteBound x =
     (case x of NaN \<Rightarrow> False | Infinity s \<Rightarrow> False
      | Fin s m \<Rightarrow> s = False \<and> 0 \<le> m \<and> m < 2 ^ 1024 \<and> roundMag m = m)"

text \<open>The states between two calls: the mutex free, the configuration sound (a limit that
  is not negative, a finite ceiling, a default balance in range), one entry for each key,
  every balance in range, and the ranking as claimed of it: of length
  \<open>min limit count\<close> and in order.\<close>

definition ready :: "EconomyPlugin \<Rightarrow> bool" where
  "ready e = (mutex e = Readers 0 \<and> 0 \<le> TopPlayersLimit (config e) \<and>
              finiteBound (MaxBalance (config e)) \<and>
              inRange (MaxBalance (config e)) (DefaultBalance (config e)) \<and>
              distinct (map fst (playerData e)))"

definition rankingOk :: "EconomyPlugin \<Rightarrow> bool" where
  "rankingOk e =
     (length (topPlayers e) = min (nat (TopPlayersLimit (config e))) (length (playerData e)) \<and>
      descending (topBalances e))"

definition wellFormed :: "EconomyPlugin \<Rightarrow> bool" where
  "wellFormed e = (ready e \<and> balancesInRange e \<and> rankingOk e)"

text \<open>The calls of the ledger's interface, one after the other; a call that does not return
  ends the run.\<close>

datatype operation =
    GetBalance string
  | SetBalance string float64
  | AddMoney string float64
  | SubtractMoney string float64
  | TransferMoney string string float64

fun perform :: "EconomyPlugin \<Rightarrow> operation \<Rightarrow> EconomyPlugin result" where
  "perform e (GetBalance username) = andThen (getBalance e username) (\<lambda>(b, e'). Ok e')"
| "perform e (SetBalance username amount) = andThen (setBalance e username amount) (\<lambda>(ok, e'). Ok e')"
| "perform e (AddMoney username amount) = andThen (addMoney e username amount) (\<lambda>(ok, e'). Ok e')"
| "perform e (SubtractMoney username amount) = andThen (subtractMoney e username amount) (\<lambda>(ok, e'). Ok e')"
| "perform e (TransferMoney from to amount) = andThen (transferMoney e from to amount) (\<lambda>(ok, e'). Ok e')"

fun performAll :: "EconomyPlugin \<Rightarrow> operation list \<Rightarrow> EconomyPlugin result" where
  "performAll e [] = Ok e"
| "performAll e (op # ops) = andThen (perform e op) (\<lambda>e'. performAll e' ops)"

fun amountGiven :: "operation \<Rightarrow> float64" where
  "amountGiven (GetBalance username) = zero64"
| "amountGiven (SetBalance username amount) = amount"
| "amountGiven (AddMoney username amount) = amount"
| "amountGiven (SubtractMoney username amount) = amount"
| "amountGiven (TransferMoney from to amount) = amount"

text \<open>What a call from a well-formed state may do: return in a well-formed state, or stop
  at the mutex with every balance still in range.\<close>

definition safeOutcome :: "EconomyPlugin result \<Rightarrow> bool" where
  "safeOutcome r = (case r of Ok e' \<Rightarrow> wellFormed e' | Blocked s \<Rightarrow> balancesInRange s | Panic \<Rightarrow> False)"

text \<open>The order of the ranking: \<open>before p q\<close> when the balance of \<open>p\<close> is not below
  the balance of \<open>q\<close>.\<close>

definition before :: "(string \<times> PlayerAccount) \<Rightarrow> (string \<times> PlayerAccount) \<Rightarrow> bool" where
  "before p q = fle (Balance (snd q)) (Balance (snd p))"

text \<open>The state a blocked \<^verbatim>\<open>createAccount\<close> leaves behind: the write lock held, the
  clock read once, the new account stored.\<close>

definition inserted :: "EconomyPlugin \<Rightarrow> string \<Rightarrow> EconomyPlugin" where
  "inserted e username =
     e\<lparr>mutex := Writer, ticks := ticks e + 1,
       playerData := AList.update (ToLower username)
         \<lparr>Username = username, Balance = DefaultBalance (config e), LastSeen = clock e (ticks e),
          TotalEarned = DefaultBalance (config e), TotalSpent = zero64\<rparr> (playerData e)\<rparr>"

text \<open>The state after \<^verbatim>\<open>getAccount\<close> has found an account: \<^verbatim>\<open>LastSeen\<close> is set.\<close>

definition touched :: "EconomyPlugin \<Rightarrow> string \<Rightarrow> EconomyPlugin" where
  "touched e username =
     e\<lparr>ticks := ticks e + 1,
       playerData := AList.map_entry (ToLower username)
         (\<lambda>a. a\<lparr>LastSeen := clock e (ticks e)\<rparr>) (playerData e)\<rparr>"

text \<open>The ranking that \<^verbatim>\<open>updateTopPlayers\<close> stores.\<close>

definition ranking :: "EconomyPlugin \<Rightarrow> string list" where
  "ranking e = map fst (take (nat (TopPlayersLimit (config e))) (bubbleOuter 0 (playerData e)))"

text \<open>A clock that stands at noon of 2024-01-01, the plugin as \<^verbatim>\<open>main\<close> builds it, and
  the plugin after \<^verbatim>\<open>loadPlayerData\<close> has read a file of three accounts, or of the one
  account of the specification's scenario.\<close>

definition demoClock :: "nat \<Rightarrow> Time" where
  "demoClock n = \<lparr>Year = 2024, Month = 1, Day = 1, Hour = 12, Minute = 0, Second = 0\<rparr>"

definition freshPlugin :: EconomyPlugin where
  "freshPlugin = NewEconomyPlugin demoClock"

definition savedAccount :: "string \<Rightarrow> rat \<Rightarrow> PlayerAccount" where
  "savedAccount username b =
     \<lparr>Username = username, Balance = Fin False b, LastSeen = demoClock 0,
      TotalEarned = Fin False b, TotalSpent = zero64\<rparr>"

definition demoFile :: "(string \<times> PlayerAccount) list" where
  "demoFile = [(''alice'', savedAccount ''Alice'' 1), (''bob'', savedAccount ''Bob'' 5),
               (''carol'', savedAccount ''Carol'' 2)]"

definition demoLedger :: EconomyPlugin where
  "demoLedger = freshPlugin\<lparr>playerData := demoFile, topPlayers := [''bob'', ''carol'', ''alice'']\<rparr>"

definition testFile :: "(string \<times> PlayerAccount) list" where
  "testFile = [(''testplayer'', savedAccount ''TestPlayer'' 1000)]"

definition testLedger :: EconomyPlugin where
  "testLedger = freshPlugin\<lparr>playerData := testFile, topPlayers := [''testplayer'']\<rparr>"

text \<open>
  The line of the audit log as the specification describes it, written without the
  code's formatting functions: the stamp \<^verbatim>\<open>YYYY-MM-DD HH:MM:SS\<close> digit by digit, the
  amount as its whole part, a point and two digits of cents, and the line itself, which
  ends with a line feed. A string is a decimal numeral when it is made of digits and does
  not start with a needless zero, and its value is read from the left. The cents of an
  amount are the whole number nearest to a hundred times the amount, the even one of the
  two when both are as near. A clock reading is civil when each field fits the digits
  that the layout gives it.
\<close>

definition decimalDigit :: "nat \<Rightarrow> char" where
  "decimalDigit d = ''0123456789'' ! d"

definition twoDigits :: "nat \<Rightarrow> string" where
  "twoDigits n = [decimalDigit (n div 10 mod 10), decimalDigit (n mod 10)]"

definition fourDigits :: "nat \<Rightarrow> string" where
  "fourDigits n = [decimalDigit (n div 1000 mod 10), decimalDigit (n div 100 mod 10),
                   decimalDigit (n div 10 mod 10), decimalDigit (n mod 10)]"

definition stampOf :: "Time \<Rightarrow> string" where
  "stampOf t = fourDigits (Year t) @ ''-'' @ twoDigits (Month t) @ ''-'' @ twoDigits (Day t) @
               '' '' @ twoDigits (Hour t) @ '':'' @ twoDigits (Minute t) @ '':'' @
               twoDigits (Second t)"

definition civil :: "Time \<Rightarrow> bool" where
  "civil t = (Year t < 10000 \<and> Month t < 100 \<and> Day t < 100 \<and> Hour t < 100 \<and>
              Minute t < 100 \<and> Second t < 100)"

definition decimalValue :: "string \<Rightarrow> nat" where
  "decimalValue ds = foldl (\<lambda>a c. 10 * a + (of_char c - 48)) 0 ds"

definition isDecimal :: "string \<Rightarrow> bool" where
  "isDecimal ds = (ds \<noteq> [] \<and> list_all (\<lambda>c. c \<in> set ''0123456789'') ds \<and>
                   (ds = ''0'' \<or> hd ds \<noteq> CHR ''0''))"

definition nearestCents :: "rat \<Rightarrow> nat \<Rightarrow> bool" where
  "nearestCents m c = (\<bar>of_nat c - m * 100\<bar> < 1 / 2 \<or> (\<bar>of_nat c - m * 100\<bar> = 1 / 2 \<and> even c))"

definition amountText :: "bool \<Rightarrow> string \<Rightarrow> nat \<Rightarrow> string" where
  "amountText negative whole cents = (if negative then ''-'' else []) @ whole @ ''.'' @ twoDigits cents"

definition auditLine ::
  "Time \<Rightarrow> string \<Rightarrow> string \<Rightarrow> string \<Rightarrow> string \<Rightarrow> string \<Rightarrow> string" where
  "auditLine t from to symbol amount kindAndReason =
     ''['' @ stampOf t @ ''] '' @ from @ '' -> '' @ to @ '': '' @ symbol @ amount @
     '' ('' @ kindAndReason @ '')'' @ [CHR 0x0A]"

text \<open>A clock that runs, one second a reading, from 09:05:40 of 2024-03-07, and the plugin
  with the three accounts under that clock.\<close>

definition marchClock :: "nat \<Rightarrow> Time" where
  "marchClock n = \<lparr>Year = 2024, Month = 3, Day = 7, Hour = 9, Minute = 5, Second = 40 + n\<rparr>"

definition marchLedger :: EconomyPlugin where
  "marchLedger = demoLedger\<lparr>clock := marchClock\<rparr>"

section \<open>Facts about the operations\<close>

subsection \<open>Unfolding the definitions on concrete states\<close>

lemmas lock_defs = Lock_def Unlock_def RLock_def RUnlock_def
lemmas op_defs = getAccount_def createAccount_def updateTopPlayers_def timeNow_def modify_def
  deref_def logIfEnabled_def logTransaction_def loadPlayerData_def
lemmas demo_defs = demoClock_def freshPlugin_def savedAccount_def NewEconomyPlugin_def
  defaultConfig_def demoFile_def demoLedger_def testFile_def testLedger_def balances_def
  topBalances_def balancesInRange_def inRange_def descending_def zero64_def
lemmas char_defs = ToLower_def toLowerChar_def char_of_def bit_Suc_0_iff
lemmas float_defs = signedVal_def fsub_def round64_def roundMag_def ulpExp_def ilog2_def pow2_def
  roundHalfEven_def floorLog2.simps
lemmas format_defs = logEntry_def formatTime_def formatFloat2_def padZero_def showNat.simps
  digitChar_def
lemmas sort_defs = bubbleOuter.simps bubbleInner.simps swapAt_def

subsection \<open>Sequencing, the mutex and the ranking\<close>

lemma andThen_simps [simp]:
  "andThen (Ok x) f = f x" "andThen (Blocked s) f = Blocked s" "andThen Panic f = Panic"
  by (simp_all add: andThen_def)

lemma mutex_update_same: "mutex e = m \<Longrightarrow> e\<lparr>mutex := m\<rparr> = e"
  by (auto intro!: EconomyPlugin.equality)

lemma logIfEnabled_fields [simp]:
  "playerData (logIfEnabled e f t a ty r) = playerData e"
  "mutex (logIfEnabled e f t a ty r) = mutex e"
  "config (logIfEnabled e f t a ty r) = config e"
  "topPlayers (logIfEnabled e f t a ty r) = topPlayers e"
  by (simp_all add: logIfEnabled_def logTransaction_def timeNow_def split: option.splits)

lemma touched_fields [simp]:
  "mutex (touched e u) = mutex e" "config (touched e u) = config e"
  "topPlayers (touched e u) = topPlayers e" "ticks (touched e u) = ticks e + 1"
  "clock (touched e u) = clock e" "transactionsLog (touched e u) = transactionsLog e"
  by (simp_all add: touched_def)

lemma map_of_touched:
  "map_of (playerData (touched e username)) k =
     (if k = ToLower username
      then map_option (\<lambda>a. a\<lparr>LastSeen := clock e (ticks e)\<rparr>) (map_of (playerData e) k)
      else map_of (playerData e) k)"
  by (auto simp: touched_def map_of_map_entry split: option.splits)

lemma length_bubbleOuter: "length (bubbleOuter i players) = length players"
proof (induction i players rule: bubbleOuter.induct)
  case (1 i players)
  show ?case
  proof (cases "i < length players")
    case True
    then show ?thesis
      using "1.IH" by (subst bubbleOuter.simps) (simp add: length_bubbleInner)
  next
    case False
    then show ?thesis
      by (subst bubbleOuter.simps) simp
  qed
qed

text \<open>With the mutex free and a limit that is not negative, \<^verbatim>\<open>updateTopPlayers\<close> stores
  the ranking and changes nothing else; under the write lock it never gets its read lock.\<close>

lemma updateTopPlayers_free:
  assumes "mutex e = Readers 0" and "0 \<le> TopPlayersLimit (config e)"
  shows "updateTopPlayers e = Ok (e\<lparr>topPlayers := ranking e\<rparr>)"
proof -
  have "nat (int (length (playerData e))) = length (playerData e)" by simp
  then show ?thesis
    using assms
    by (auto simp: updateTopPlayers_def RLock_def RUnlock_def ranking_def Let_def length_bubbleOuter
        intro!: EconomyPlugin.equality)
qed

lemma updateTopPlayers_negative_limit:
  "mutex e = Readers 0 \<Longrightarrow> TopPlayersLimit (config e) < 0 \<Longrightarrow> updateTopPlayers e = Panic"
  by (simp add: updateTopPlayers_def RLock_def Let_def)

lemma updateTopPlayers_under_writer: "mutex e = Writer \<Longrightarrow> updateTopPlayers e = Blocked e"
  by (simp add: updateTopPlayers_def RLock_def)

subsection \<open>Creating and finding accounts\<close>

text \<open>\<^verbatim>\<open>createAccount\<close> returns from no state: it calls \<^verbatim>\<open>updateTopPlayers\<close>, which asks
  for the read lock, while it holds the write lock itself.\<close>

lemma createAccount_never_returns: "createAccount e username \<noteq> Ok r"
  by (cases "mutex e")
     (simp_all add: createAccount_def Lock_def Let_def updateTopPlayers_under_writer timeNow_def)

lemma createAccount_free:
  "mutex e = Readers 0 \<Longrightarrow> createAccount e username = Blocked (inserted e username)"
  by (simp add: createAccount_def Lock_def Let_def updateTopPlayers_under_writer timeNow_def inserted_def)

lemma getAccount_existing:
  "mutex e = Readers n \<Longrightarrow> map_of (playerData e) (ToLower username) = Some a \<Longrightarrow>
   getAccount e username = Ok (ToLower username, touched e username)"
  by (auto simp: getAccount_def RLock_def RUnlock_def timeNow_def touched_def
      intro!: EconomyPlugin.equality)

lemma getAccount_missing:
  "mutex e = Readers 0 \<Longrightarrow> map_of (playerData e) (ToLower username) = None \<Longrightarrow>
   getAccount e username = Blocked (inserted e username)"
  by (simp add: getAccount_def RLock_def RUnlock_def createAccount_free mutex_update_same)

lemma getAccount_returns:
  assumes "getAccount e username = Ok r"
  shows "map_of (playerData e) (ToLower username) \<noteq> None \<and> r = (ToLower username, touched e username)"
proof (cases "mutex e")
  case (Readers n)
  show ?thesis
  proof (cases "map_of (playerData e) (ToLower username)")
    case None
    with Readers assms show ?thesis
      by (simp add: getAccount_def RLock_def RUnlock_def createAccount_never_returns)
  next
    case (Some a)
    with Readers assms show ?thesis
      by (simp add: getAccount_existing)
  qed
next
  case Writer
  with assms show ?thesis
    by (simp add: getAccount_def RLock_def)
qed

subsection \<open>The sort of the ranking\<close>

text \<open>Where no balance is a NaN, \<open>fle\<close> is a total preorder on the balances, and the two
  loops sort: the inner loop carries the least balance of the part in front to its end,
  and after \<open>i\<close> rounds of the outer loop the last \<open>i\<close> elements are in order and below
  all the others.\<close>

lemma fle_refl: "x \<noteq> NaN \<Longrightarrow> fle x x"
  by (cases x) simp_all

lemma fle_trans: "fle x y \<Longrightarrow> fle y z \<Longrightarrow> fle x z"
  by (cases x; cases y; cases z) auto

lemma not_flt_iff: "x \<noteq> NaN \<Longrightarrow> y \<noteq> NaN \<Longrightarrow> (\<not> flt x y) = fle y x"
  by (cases x; cases y) auto

lemma flt_imp_fle: "flt x y \<Longrightarrow> fle x y"
  by (cases x; cases y) auto

lemma mset_swapAt: "j + 1 < length ps \<Longrightarrow> mset (swapAt j ps) = mset ps"
  by (simp add: swapAt_def mset_swap)

lemma bubbleInner_correct:
  assumes "i < length ps" and "j \<le> length ps - 1 - i"
    and "\<forall>p \<in> set ps. Balance (snd p) \<noteq> NaN"
    and "\<forall>k<j. before (ps ! k) (ps ! j)"
  shows "mset (bubbleInner i j ps) = mset ps \<and>
         (\<forall>k \<le> length ps - 1 - i. before (bubbleInner i j ps ! k) (bubbleInner i j ps ! (length ps - 1 - i))) \<and>
         drop (length ps - i) (bubbleInner i j ps) = drop (length ps - i) ps"
  using assms
proof (induction i j ps rule: bubbleInner.induct)
  case (1 i j ps)
  let ?b = "length ps - 1 - i"
  show ?case
  proof (cases "j < ?b")
    case True
    define ps' where "ps' = (if flt (Balance (snd (ps ! j))) (Balance (snd (ps ! (j + 1)))) then swapAt j ps else ps)"
    have cond: "int j < int (length ps) - 1 - int i" using True by linarith
    have unfold: "bubbleInner i j ps = bubbleInner i (j + 1) ps'"
      using cond by (subst bubbleInner.simps) (simp add: ps'_def)
    have len: "length ps' = length ps" by (simp add: ps'_def swapAt_def)
    have j1: "j + 1 < length ps" using True by linarith
    have ms: "mset ps' = mset ps" using j1 by (simp add: ps'_def mset_swapAt)
    then have st: "set ps' = set ps" by (metis set_mset_mset)
    have nn: "\<forall>p \<in> set ps'. Balance (snd p) \<noteq> NaN" using "1.prems"(3) st by simp
    have nj: "Balance (snd (ps ! j)) \<noteq> NaN" "Balance (snd (ps ! (j + 1))) \<noteq> NaN"
      using "1.prems"(3) j1 by (auto simp: nth_mem)
    have pre: "\<forall>k<j + 1. before (ps' ! k) (ps' ! (j + 1))"
    proof (intro allI impI)
      fix k assume k: "k < j + 1"
      show "before (ps' ! k) (ps' ! (j + 1))"
      proof (cases "flt (Balance (snd (ps ! j))) (Balance (snd (ps ! (j + 1))))")
        case True
        then have e: "ps' = ps[j := ps ! (j + 1), j + 1 := ps ! j]" by (simp add: ps'_def swapAt_def)
        show ?thesis
        proof (cases "k = j")
          case True
          then show ?thesis
            using e j1 \<open>flt (Balance (snd (ps ! j))) (Balance (snd (ps ! (j + 1))))\<close>
            by (simp add: before_def flt_imp_fle)
        next
          case False
          then have "k < j" using k by simp
          then show ?thesis
            using e j1 "1.prems"(4) by simp
        qed
      next
        case False
        then have e: "ps' = ps" by (simp add: ps'_def)
        have b: "before (ps ! j) (ps ! (j + 1))"
          using False nj by (simp add: before_def not_flt_iff)
        show ?thesis
        proof (cases "k = j")
          case True
          then show ?thesis using e b by simp
        next
          case False
          then have "k < j" using k by simp
          then have "before (ps ! k) (ps ! j)" using "1.prems"(4) by simp
          then show ?thesis using b e by (auto simp: before_def intro: fle_trans)
        qed
      qed
    qed
    have p1: "i < length ps'" using "1.prems"(1) len by simp
    have p2: "j + 1 \<le> length ps' - 1 - i" using True len by simp
    note IH = "1.IH" [OF cond, folded ps'_def, OF p1 p2 nn pre]
    have dr: "drop (length ps - i) ps' = drop (length ps - i) ps"
      using True by (simp add: ps'_def swapAt_def)
    show ?thesis
      using IH unfold len ms dr by simp
  next
    case False
    then have jb: "j = ?b" using "1.prems"(2) by simp
    have cond: "\<not> int j < int (length ps) - 1 - int i" using False by linarith
    have unfold: "bubbleInner i j ps = ps"
      using cond by (subst bubbleInner.simps) simp
    have "Balance (snd (ps ! j)) \<noteq> NaN" using "1.prems"(1,3) jb by (auto simp: nth_mem)
    then have "before (ps ! j) (ps ! j)" by (simp add: before_def fle_refl)
    then show ?thesis
      using unfold jb "1.prems"(4) by (auto simp: le_less)
  qed
qed


lemma bubbleOuter_correct:
  assumes "i \<le> length ps" and "\<forall>p \<in> set ps. Balance (snd p) \<noteq> NaN"
    and "sorted_wrt before (drop (length ps - i) ps)"
    and "\<forall>x \<in> set (take (length ps - i) ps). \<forall>y \<in> set (drop (length ps - i) ps). before x y"
  shows "mset (bubbleOuter i ps) = mset ps \<and> sorted_wrt before (bubbleOuter i ps)"
  using assms
proof (induction i ps rule: bubbleOuter.induct)
  case (1 i ps)
  show ?case
  proof (cases "i < length ps")
    case True
    define qs where "qs = bubbleInner i 0 ps"
    define b where "b = length ps - 1 - i"
    have unfold: "bubbleOuter i ps = bubbleOuter (i + 1) qs"
      using True by (subst bubbleOuter.simps) (simp add: qs_def)
    have inner: "mset qs = mset ps"
      "\<forall>k \<le> b. before (qs ! k) (qs ! b)"
      "drop (length ps - i) qs = drop (length ps - i) ps"
      using bubbleInner_correct [of i ps 0] True "1.prems"(2) by (simp_all add: qs_def b_def)
    have len: "length qs = length ps" by (simp add: qs_def length_bubbleInner)
    have b: "b < length ps" "Suc b = length ps - i" "length ps - (i + 1) = b"
      using True by (simp_all add: b_def)
    have "mset (take (length ps - i) qs) + mset (drop (length ps - i) qs) =
          mset (take (length ps - i) ps) + mset (drop (length ps - i) ps)"
      using inner(1) by (metis append_take_drop_id mset_append)
    then have "mset (take (length ps - i) qs) = mset (take (length ps - i) ps)"
      using inner(3) by simp
    then have tk: "set (take (length ps - i) qs) = set (take (length ps - i) ps)"
      by (metis set_mset_mset)
    have dr: "drop b qs = qs ! b # drop (length ps - i) ps"
      using b len inner(3) by (metis Cons_nth_drop_Suc)
    have front: "\<forall>x \<in> set (take (length ps - i) qs). \<forall>y \<in> set (drop (length ps - i) ps). before x y"
      using tk "1.prems"(4) by simp
    have qb: "qs ! b \<in> set (take (length ps - i) qs)"
      using b len by (metis in_set_conv_nth length_take lessI min.absorb2 nat_le_linear nth_take diff_le_self)
    have s1: "sorted_wrt before (drop (length qs - (i + 1)) qs)"
      using dr b len front qb "1.prems"(3) by simp
    have s2: "\<forall>x \<in> set (take (length qs - (i + 1)) qs). \<forall>y \<in> set (drop (length qs - (i + 1)) qs). before x y"
    proof (intro ballI)
      fix x y
      assume x: "x \<in> set (take (length qs - (i + 1)) qs)"
        and y: "y \<in> set (drop (length qs - (i + 1)) qs)"
      from x obtain k where k: "k < b" "x = qs ! k"
        using b len by (auto simp: in_set_conv_nth)
      have xin: "x \<in> set (take (length ps - i) qs)"
        using k b len by (auto simp: in_set_conv_nth intro!: exI [of _ k])
      from y have "y = qs ! b \<or> y \<in> set (drop (length ps - i) ps)"
        using dr b len by simp
      then show "before x y"
        using k inner(2) xin front by auto
    qed
    have nn: "\<forall>p \<in> set qs. Balance (snd p) \<noteq> NaN"
      using inner(1) "1.prems"(2) by (metis set_mset_mset)
    have i1: "i + 1 \<le> length qs" using True len by simp
    note IH = "1.IH" [OF True, folded qs_def, OF i1 nn s1 s2]
    then show ?thesis
      using unfold inner(1) by simp
  next
    case False
    then have "bubbleOuter i ps = ps" by (subst bubbleOuter.simps) simp
    moreover have "length ps - i = 0" using False by simp
    ultimately show ?thesis using "1.prems"(3) by simp
  qed
qed

lemma bubbleOuter_sorts:
  assumes "\<forall>p \<in> set ps. Balance (snd p) \<noteq> NaN"
  shows "mset (bubbleOuter 0 ps) = mset ps \<and> sorted_wrt before (bubbleOuter 0 ps)"
  using bubbleOuter_correct [of 0 ps] assms by simp

lemma map_filter_keys:
  "\<forall>p \<in> set xs. map_of ps (fst p) = Some (snd p) \<Longrightarrow>
   List.map_filter (\<lambda>k. map_option Balance (map_of ps k)) (map fst xs) = map (\<lambda>p. Balance (snd p)) xs"
  by (induction xs) (simp_all add: map_filter_simps)

text \<open>So, on a store with one entry for each key and no NaN balance, with the mutex free
  and a limit that is not negative, \<^verbatim>\<open>updateTopPlayers\<close> returns a ranking of
  \<open>min limit count\<close> accounts whose balances are sorted non-increasing.\<close>

lemma updateTopPlayers_sorted:
  assumes "mutex e = Readers 0" and "0 \<le> TopPlayersLimit (config e)"
    and "distinct (map fst (playerData e))"
    and "\<forall>p \<in> set (playerData e). Balance (snd p) \<noteq> NaN"
  shows "\<exists>e'. updateTopPlayers e = Ok e' \<and> playerData e' = playerData e \<and>
           length (topPlayers e') = min (nat (TopPlayersLimit (config e))) (length (playerData e)) \<and>
           descending (topBalances e')"
proof -
  let ?sorted = "bubbleOuter 0 (playerData e)"
  let ?top = "take (nat (TopPlayersLimit (config e))) ?sorted"
  have srt: "mset ?sorted = mset (playerData e)" "sorted_wrt before ?sorted"
    using bubbleOuter_sorts [OF assms(4)] by simp_all
  have "set ?sorted = set (playerData e)"
    using srt(1) by (metis set_mset_mset)
  then have "\<forall>p \<in> set ?top. map_of (playerData e) (fst p) = Some (snd p)"
    using assms(3) by (auto dest!: in_set_takeD)
  then have tb: "topBalances (e\<lparr>topPlayers := ranking e\<rparr>) = map (\<lambda>p. Balance (snd p)) ?top"
    by (simp add: topBalances_def ranking_def map_filter_keys)
  have bf: "before = (\<lambda>p q. fle (Balance (snd q)) (Balance (snd p)))"
    by (simp add: fun_eq_iff before_def)
  have "sorted_wrt before ?top"
    using srt(2) by (rule sorted_wrt_take)
  then have "descending (map (\<lambda>p. Balance (snd p)) ?top)"
    by (simp add: descending_def sorted_wrt_map bf)
  then show ?thesis
    using assms(1,2) tb
    by (simp add: updateTopPlayers_free ranking_def length_bubbleOuter min.commute)
qed

subsection \<open>Rounding is monotone\<close>

text \<open>\<open>floorLog2\<close> and \<open>ilog2\<close> find the binade of a number, the rounding to an integer
  is monotone, and so is the rounding to a binary64 magnitude: within one binade because
  the integer rounding is, across binades because a number rounds to at most the top of
  its binade. With that, a balance that moves within \<open>[0, maxBalance]\<close> by a sum or a
  difference the code has checked stays within it.\<close>

lemma pow2_power_int: "pow2 e = power_int 2 e"
  by (simp add: pow2_def power_int_def field_simps)

lemma pow2_pos: "0 < pow2 e"
  by (simp add: pow2_power_int)

lemma pow2_add: "pow2 (a + b) = pow2 a * pow2 b"
  by (simp add: pow2_power_int power_int_add)

lemma pow2_mono: "a \<le> b \<Longrightarrow> pow2 a \<le> pow2 b"
  by (simp add: pow2_power_int power_int_increasing)

lemma pow2_less_imp: "pow2 a < pow2 b \<Longrightarrow> a < b"
  using pow2_mono [of b a] by (cases "a < b") auto

lemma pow2_nat: "0 \<le> e \<Longrightarrow> pow2 e = 2 ^ nat e"
  by (simp add: pow2_def)

lemma floorLog2_spec:
  "1 \<le> n \<Longrightarrow> 0 \<le> floorLog2 n \<and> 2 ^ nat (floorLog2 n) \<le> n \<and> n < 2 ^ nat (floorLog2 n + 1)"
proof (induction n rule: floorLog2.induct)
  case (1 n)
  show ?case
  proof (cases "n < 2")
    case True
    with "1.prems" have "n = 1" by simp
    then show ?thesis by (simp add: floorLog2.simps)
  next
    case False
    then have h: "1 \<le> n div 2" by simp
    note IH = "1.IH" [OF False h]
    have f: "floorLog2 n = 1 + floorLog2 (n div 2)"
      using False by (subst floorLog2.simps) simp
    have e1: "nat (floorLog2 n) = Suc (nat (floorLog2 (n div 2)))"
      using IH f by linarith
    have e2: "nat (floorLog2 n + 1) = Suc (Suc (nat (floorLog2 (n div 2))))"
      using IH f by linarith
    have e3: "nat (floorLog2 (n div 2) + 1) = Suc (nat (floorLog2 (n div 2)))"
      using IH by linarith
    have a: "2 * 2 ^ nat (floorLog2 (n div 2)) \<le> n"
      using IH by linarith
    have b: "n < 2 * (2 * 2 ^ nat (floorLog2 (n div 2)))"
      using IH unfolding e3 by simp linarith
    have g1: "0 \<le> floorLog2 n" using IH f by simp
    have g2: "2 ^ nat (floorLog2 n) \<le> n" unfolding e1 using a by simp
    have g3: "n < 2 ^ nat (floorLog2 n + 1)" unfolding e2 using b by simp
    show ?thesis
      using g1 g2 g3 by simp
  qed
qed

lemma floorLog2_pow2:
  assumes "1 \<le> n"
  shows "pow2 (floorLog2 n) \<le> of_int n" and "of_int n < pow2 (floorLog2 n + 1)"
proof -
  note s = floorLog2_spec [OF assms]
  have "(of_int (2 ^ nat (floorLog2 n)) :: rat) \<le> of_int n"
    using s by (simp only: of_int_le_iff)
  then show "pow2 (floorLog2 n) \<le> of_int n"
    using s by (simp add: pow2_nat)
  have "(of_int n :: rat) < of_int (2 ^ nat (floorLog2 n + 1))"
    using s by (simp only: of_int_less_iff)
  then show "of_int n < pow2 (floorLog2 n + 1)"
    using s by (simp add: pow2_nat)
qed

lemma ilog2_spec:
  assumes "0 < m"
  shows "pow2 (ilog2 m) \<le> m \<and> m < pow2 (ilog2 m + 1)"
proof (cases "1 \<le> m")
  case True
  then have f: "1 \<le> \<lfloor>m\<rfloor>" by simp
  have "pow2 (floorLog2 \<lfloor>m\<rfloor>) \<le> of_int \<lfloor>m\<rfloor>" by (rule floorLog2_pow2 [OF f])
  also have "\<dots> \<le> m" by simp
  finally have a: "pow2 (floorLog2 \<lfloor>m\<rfloor>) \<le> m" .
  have "of_int (\<lfloor>m\<rfloor> + 1) \<le> pow2 (floorLog2 \<lfloor>m\<rfloor> + 1)"
  proof -
    have "\<lfloor>m\<rfloor> + 1 \<le> 2 ^ nat (floorLog2 \<lfloor>m\<rfloor> + 1)"
      using floorLog2_spec [OF f] by simp
    then have "(of_int (\<lfloor>m\<rfloor> + 1) :: rat) \<le> of_int (2 ^ nat (floorLog2 \<lfloor>m\<rfloor> + 1))"
      by (simp only: of_int_le_iff)
    then show ?thesis
      using floorLog2_spec [OF f] by (simp add: pow2_nat)
  qed
  moreover have "m < of_int (\<lfloor>m\<rfloor> + 1)" by linarith
  ultimately have b: "m < pow2 (floorLog2 \<lfloor>m\<rfloor> + 1)" by linarith
  show ?thesis using True a b by (simp add: ilog2_def)
next
  case False
  define c where "c = \<lceil>1 / m\<rceil> - 1"
  define k where "k = floorLog2 c"
  have inv: "1 < 1 / m" using False assms by (simp add: field_simps)
  then have c1: "1 \<le> c" unfolding c_def by linarith
  have cu: "of_int c < 1 / m" unfolding c_def by linarith
  have cl: "1 / m \<le> of_int c + 1" unfolding c_def by linarith
  have p1: "pow2 k \<le> of_int c" and p2: "of_int c < pow2 (k + 1)"
    using floorLog2_pow2 [OF c1] by (simp_all add: k_def)
  have p2': "of_int c + 1 \<le> pow2 (k + 1)"
  proof -
    have "c + 1 \<le> 2 ^ nat (k + 1)"
      using floorLog2_spec [OF c1] by (simp add: k_def)
    then have "(of_int (c + 1) :: rat) \<le> of_int (2 ^ nat (k + 1))"
      by (simp only: of_int_le_iff)
    then show ?thesis
      using floorLog2_spec [OF c1] by (simp add: pow2_nat k_def)
  qed
  have lo: "pow2 k < 1 / m" using p1 cu by linarith
  have hi: "1 / m \<le> pow2 (k + 1)" using p2' cl by linarith
  have e1: "pow2 (- 1 - k) * pow2 (k + 1) = 1"
    using pow2_add [of "- 1 - k" "k + 1"] by (simp add: pow2_def)
  have e2: "pow2 (- k) * pow2 k = 1"
    using pow2_add [of "- k" "k"] by (simp add: pow2_def)
  have a: "pow2 (- 1 - k) \<le> m"
  proof -
    have "1 \<le> m * pow2 (k + 1)" using hi assms by (simp add: field_simps)
    then have "pow2 (- 1 - k) * 1 \<le> pow2 (- 1 - k) * (m * pow2 (k + 1))"
      using pow2_pos [of "- 1 - k"] by (simp only: mult_le_cancel_left_pos)
    then show ?thesis using e1 by (simp add: mult.assoc mult.left_commute)
  qed
  have b: "m < pow2 (- k)"
  proof -
    have "m * pow2 k < 1" using lo assms by (simp add: field_simps)
    then have "pow2 (- k) * (m * pow2 k) < pow2 (- k) * 1"
      using pow2_pos [of "- k"] by (simp only: mult_less_cancel_left_pos)
    then show ?thesis using e2 by (simp add: mult.assoc mult.left_commute)
  qed
  have "ilog2 m = - 1 - k" using False by (simp add: ilog2_def c_def k_def)
  then show ?thesis using a b by simp
qed

lemma ilog2_mono: "0 < r \<Longrightarrow> r \<le> v \<Longrightarrow> ilog2 r \<le> ilog2 v"
proof -
  assume r: "0 < r" and rv: "r \<le> v"
  have "pow2 (ilog2 r) \<le> r" using ilog2_spec [OF r] by simp
  also have "\<dots> \<le> v" by (rule rv)
  also have "\<dots> < pow2 (ilog2 v + 1)" using ilog2_spec [of v] r rv by simp
  finally have "ilog2 r < ilog2 v + 1" by (rule pow2_less_imp)
  then show ?thesis by simp
qed

lemma roundHalfEven_cases: "roundHalfEven q = \<lfloor>q\<rfloor> \<or> roundHalfEven q = \<lfloor>q\<rfloor> + 1"
  by (simp add: roundHalfEven_def)

lemma roundHalfEven_ge: "of_int n \<le> q \<Longrightarrow> n \<le> roundHalfEven q"
proof -
  assume "of_int n \<le> q"
  then have "n \<le> \<lfloor>q\<rfloor>" by (simp add: le_floor_iff)
  then show ?thesis using roundHalfEven_cases [of q] by auto
qed

lemma roundHalfEven_le: "q \<le> of_int n \<Longrightarrow> roundHalfEven q \<le> n"
proof -
  assume a: "q \<le> of_int n"
  then have fl: "\<lfloor>q\<rfloor> \<le> n" by (simp add: floor_le_iff)
  show ?thesis
  proof (cases "\<lfloor>q\<rfloor> = n")
    case True
    then have "q = of_int \<lfloor>q\<rfloor>" using a by (metis of_int_floor_le order_antisym)
    then have "q - of_int \<lfloor>q\<rfloor> < 1 / 2" by simp
    then show ?thesis using True by (simp add: roundHalfEven_def)
  next
    case False
    then show ?thesis using fl roundHalfEven_cases [of q] by auto
  qed
qed

lemma roundHalfEven_mono: "p \<le> q \<Longrightarrow> roundHalfEven p \<le> roundHalfEven q"
proof -
  assume pq: "p \<le> q"
  then have fl: "\<lfloor>p\<rfloor> \<le> \<lfloor>q\<rfloor>" by (rule floor_mono)
  show ?thesis
  proof (cases "\<lfloor>p\<rfloor> = \<lfloor>q\<rfloor>")
    case True
    then have "p - of_int \<lfloor>p\<rfloor> \<le> q - of_int \<lfloor>q\<rfloor>" using pq by simp
    then show ?thesis using True by (auto simp: roundHalfEven_def)
  next
    case False
    then have "\<lfloor>p\<rfloor> + 1 \<le> \<lfloor>q\<rfloor>" using fl by simp
    moreover have "roundHalfEven p \<le> \<lfloor>p\<rfloor> + 1" using roundHalfEven_cases [of p] by auto
    moreover have "\<lfloor>q\<rfloor> \<le> roundHalfEven q" using roundHalfEven_cases [of q] by auto
    ultimately show ?thesis by linarith
  qed
qed

lemma roundMag_nonneg: "0 \<le> m \<Longrightarrow> 0 \<le> roundMag m"
proof -
  assume "0 \<le> m"
  then have "of_int 0 \<le> m / pow2 (ulpExp m)" using pow2_pos [of "ulpExp m"] by simp
  then have "0 \<le> roundHalfEven (m / pow2 (ulpExp m))" by (rule roundHalfEven_ge)
  then show ?thesis using pow2_pos [of "ulpExp m"] by (simp add: roundMag_def)
qed

lemma ulpExp_mono: "0 < r \<Longrightarrow> r \<le> v \<Longrightarrow> ulpExp r \<le> ulpExp v"
  using ilog2_mono [of r v] by (simp add: ulpExp_def)

lemma roundMag_upper:
  assumes "0 < r"
  shows "roundMag r \<le> pow2 (ulpExp r + 53)"
proof -
  have "ilog2 r + 1 \<le> ulpExp r + 53" by (simp add: ulpExp_def)
  then have "pow2 (ilog2 r + 1) \<le> pow2 (ulpExp r + 53)" by (rule pow2_mono)
  then have "r \<le> pow2 (ulpExp r + 53)" using ilog2_spec [OF assms] by linarith
  then have "r \<le> pow2 53 * pow2 (ulpExp r)" by (simp add: pow2_add mult.commute)
  then have "r / pow2 (ulpExp r) \<le> pow2 53"
    using pow2_pos [of "ulpExp r"] by (simp add: pos_divide_le_eq)
  then have "r / pow2 (ulpExp r) \<le> of_int (2 ^ 53)" by (simp add: pow2_def)
  then have "roundHalfEven (r / pow2 (ulpExp r)) \<le> 2 ^ 53" by (rule roundHalfEven_le)
  then have "(of_int (roundHalfEven (r / pow2 (ulpExp r))) :: rat) \<le> of_int (2 ^ 53)"
    by (simp only: of_int_le_iff)
  then have "of_int (roundHalfEven (r / pow2 (ulpExp r))) * pow2 (ulpExp r) \<le> pow2 53 * pow2 (ulpExp r)"
    using pow2_pos [of "ulpExp r"] by (simp add: pow2_def)
  then show ?thesis by (simp add: roundMag_def pow2_add mult.commute)
qed

lemma roundMag_lower:
  assumes "0 < v" and "- 1074 < ulpExp v"
  shows "pow2 (ulpExp v + 52) \<le> roundMag v"
proof -
  have e: "ulpExp v + 52 = ilog2 v" using assms(2) by (simp add: ulpExp_def max_def split: if_splits)
  have "pow2 (ulpExp v + 52) \<le> v" using ilog2_spec [OF assms(1)] e by simp
  then have "pow2 52 * pow2 (ulpExp v) \<le> v" by (simp add: pow2_add mult.commute)
  then have "pow2 52 \<le> v / pow2 (ulpExp v)"
    using pow2_pos [of "ulpExp v"] by (simp add: pos_le_divide_eq)
  then have "of_int (2 ^ 52) \<le> v / pow2 (ulpExp v)" by (simp add: pow2_def)
  then have "2 ^ 52 \<le> roundHalfEven (v / pow2 (ulpExp v))" by (rule roundHalfEven_ge)
  then have "(of_int (2 ^ 52) :: rat) \<le> of_int (roundHalfEven (v / pow2 (ulpExp v)))"
    by (simp only: of_int_le_iff)
  then have "pow2 52 * pow2 (ulpExp v) \<le> of_int (roundHalfEven (v / pow2 (ulpExp v))) * pow2 (ulpExp v)"
    using pow2_pos [of "ulpExp v"] by (simp add: pow2_def)
  then show ?thesis by (simp add: roundMag_def pow2_add mult.commute)
qed

lemma ulpExp_ge: "- 1074 \<le> ulpExp m"
  by (simp add: ulpExp_def)

lemma roundMag_mono:
  assumes "0 < r" and "r \<le> v"
  shows "roundMag r \<le> roundMag v"
proof (cases "ulpExp r = ulpExp v")
  case True
  have "r / pow2 (ulpExp v) \<le> v / pow2 (ulpExp v)"
    using assms(2) pow2_pos [of "ulpExp v"] by (simp add: divide_le_cancel)
  then have "roundHalfEven (r / pow2 (ulpExp v)) \<le> roundHalfEven (v / pow2 (ulpExp v))"
    by (rule roundHalfEven_mono)
  then have "(of_int (roundHalfEven (r / pow2 (ulpExp v))) :: rat) \<le> of_int (roundHalfEven (v / pow2 (ulpExp v)))"
    by (simp only: of_int_le_iff)
  then show ?thesis
    using True pow2_pos [of "ulpExp v"] by (simp add: roundMag_def)
next
  case False
  then have lt: "ulpExp r < ulpExp v" using ulpExp_mono [OF assms] by simp
  have v: "0 < v" using assms by simp
  have "- 1074 < ulpExp v" using lt ulpExp_ge [of r] by linarith
  then have lo: "pow2 (ulpExp v + 52) \<le> roundMag v" by (rule roundMag_lower [OF v])
  have "ulpExp r + 53 \<le> ulpExp v + 52" using lt by simp
  then have "pow2 (ulpExp r + 53) \<le> pow2 (ulpExp v + 52)" by (rule pow2_mono)
  then show ?thesis using roundMag_upper [OF assms(1)] lo by linarith
qed

lemma finiteBound_cases:
  assumes "finiteBound mx"
  obtains vm where "mx = Fin False vm" and "0 \<le> vm" and "vm < 2 ^ 1024" and "roundMag vm = vm"
  using assms by (cases mx) (auto simp: finiteBound_def)

lemma inRange_cases:
  assumes "inRange (Fin False vm) b"
  obtains sb mb where "b = Fin sb mb" and "0 \<le> signedVal sb mb" and "signedVal sb mb \<le> vm"
  using assms by (cases b) (auto simp: inRange_def zero64_def signedVal_def split: if_splits)

lemma round64_in_range:
  assumes "0 < r" and "r \<le> vm" and "vm < 2 ^ 1024" and "roundMag vm = vm"
  shows "inRange (Fin False vm) (round64 r)"
proof -
  have "roundMag r \<le> roundMag vm" using assms(1,2) by (rule roundMag_mono)
  then have le: "roundMag r \<le> vm" using assms(4) by simp
  have ge: "0 \<le> roundMag r" using assms(1) by (simp add: roundMag_nonneg)
  have abs: "\<bar>r\<bar> = r" using assms(1) by simp
  show ?thesis
    using le ge assms(1,3) by (simp add: round64_def abs inRange_def zero64_def signedVal_def)
qed

lemma fsub_in_range:
  assumes "finiteBound mx" and "inRange mx b" and "a \<noteq> NaN"
    and "\<not> fle a zero64" and "\<not> flt b a"
  shows "inRange mx (fsub b a)"
proof -
  from assms(1) obtain vm where mx: "mx = Fin False vm" "0 \<le> vm" "vm < 2 ^ 1024" "roundMag vm = vm"
    by (rule finiteBound_cases)
  from assms(2) mx obtain sb mb where b: "b = Fin sb mb" "0 \<le> signedVal sb mb" "signedVal sb mb \<le> vm"
    by (auto elim: inRange_cases)
  from assms(3,4,5) b obtain sa ma where a: "a = Fin sa ma" "0 < signedVal sa ma" "signedVal sa ma \<le> signedVal sb mb"
    by (cases a) (auto simp: zero64_def signedVal_def split: if_splits)
  have neg: "signedVal (\<not> sa) ma = - signedVal sa ma" by (simp add: signedVal_def)
  show ?thesis
  proof (cases "signedVal sb mb - signedVal sa ma = 0")
    case True
    then show ?thesis
      using mx by (simp add: fsub_def a b neg inRange_def zero64_def signedVal_def)
  next
    case False
    then have r: "0 < signedVal sb mb - signedVal sa ma" "signedVal sb mb - signedVal sa ma \<le> vm"
      using a b by simp_all
    have "inRange (Fin False vm) (round64 (signedVal sb mb - signedVal sa ma))"
      using r mx(3,4) by (rule round64_in_range)
    then show ?thesis
      using False by (simp add: fsub_def a b neg mx)
  qed
qed

lemma fadd_in_range:
  assumes "finiteBound mx" and "inRange mx b" and "a \<noteq> NaN"
    and "\<not> fle a zero64" and "\<not> flt mx (fadd b a)"
  shows "inRange mx (fadd b a)"
proof -
  from assms(1) obtain vm where mx: "mx = Fin False vm" "0 \<le> vm" "vm < 2 ^ 1024" "roundMag vm = vm"
    by (rule finiteBound_cases)
  from assms(2) mx obtain sb mb where b: "b = Fin sb mb" "0 \<le> signedVal sb mb" "signedVal sb mb \<le> vm"
    by (auto elim: inRange_cases)
  from assms(3,4,5) b mx obtain sa ma where a: "a = Fin sa ma" "0 < signedVal sa ma"
    by (cases a) (auto simp: zero64_def signedVal_def split: if_splits)
  have r: "0 < signedVal sb mb + signedVal sa ma" using a b by simp
  then have abs: "\<bar>signedVal sb mb + signedVal sa ma\<bar> = signedVal sb mb + signedVal sa ma" by simp
  have ge: "0 \<le> roundMag (signedVal sb mb + signedVal sa ma)" using r by (simp add: roundMag_nonneg)
  show ?thesis
    using assms(5) r ge
    by (auto simp: a b mx round64_def abs inRange_def zero64_def signedVal_def split: if_splits)
qed

lemma set_in_range:
  assumes "finiteBound mx" and "a \<noteq> NaN" and "\<not> flt a zero64" and "\<not> flt mx a"
  shows "inRange mx a"
  using assms by (cases mx; cases a) (auto simp: finiteBound_def inRange_def zero64_def)

subsection \<open>The operations on accounts that exist\<close>

text \<open>On an account that is in the store, with the mutex free and a limit that is not
  negative, each operation returns, and its effect on the store is the one written out:
  the account's \<^verbatim>\<open>LastSeen\<close> is set by \<^verbatim>\<open>getAccount\<close>, and the balance and the totals
  change only when the operation reports success.\<close>

lemma setBalance_existing:
  assumes "mutex e = Readers 0" and "0 \<le> TopPlayersLimit (config e)"
    and "map_of (playerData e) (ToLower username) = Some a"
    and "\<not> flt amount zero64" and "\<not> flt (MaxBalance (config e)) amount"
  shows "\<exists>e'. setBalance e username amount = Ok (True, e') \<and> mutex e' = Readers 0 \<and>
          map_of (playerData e') = (map_of (playerData e))
             (ToLower username \<mapsto> a\<lparr>LastSeen := clock e (ticks e), Balance := amount\<rparr>)"
  using assms
  by (auto simp: setBalance_def getAccount_existing Lock_def Unlock_def modify_def
      updateTopPlayers_free map_of_map_entry map_of_touched fun_eq_iff)

lemma setBalance_rejected:
  "flt amount zero64 \<or> flt (MaxBalance (config e)) amount \<Longrightarrow> setBalance e username amount = Ok (False, e)"
  by (simp add: setBalance_def)

lemma addMoney_rejected: "fle amount zero64 \<Longrightarrow> addMoney e username amount = Ok (False, e)"
  by (simp add: addMoney_def)

lemma addMoney_existing:
  assumes "mutex e = Readers 0" and "0 \<le> TopPlayersLimit (config e)"
    and "map_of (playerData e) (ToLower username) = Some a"
    and "\<not> fle amount zero64"
  shows "\<exists>e'. addMoney e username amount =
               Ok (\<not> flt (MaxBalance (config e)) (fadd (Balance a) amount), e') \<and>
          mutex e' = Readers 0 \<and>
          map_of (playerData e') = (map_of (playerData e))
             (ToLower username \<mapsto>
                (if flt (MaxBalance (config e)) (fadd (Balance a) amount)
                 then a\<lparr>LastSeen := clock e (ticks e)\<rparr>
                 else a\<lparr>LastSeen := clock e (ticks e), Balance := fadd (Balance a) amount,
                        TotalEarned := fadd (TotalEarned a) amount\<rparr>))"
  using assms
  by (auto simp: addMoney_def getAccount_existing Lock_def Unlock_def modify_def deref_def
      updateTopPlayers_free map_of_map_entry map_of_touched fun_eq_iff)

lemma subtractMoney_rejected: "fle amount zero64 \<Longrightarrow> subtractMoney e username amount = Ok (False, e)"
  by (simp add: subtractMoney_def)

lemma subtractMoney_existing:
  assumes "mutex e = Readers 0" and "0 \<le> TopPlayersLimit (config e)"
    and "map_of (playerData e) (ToLower username) = Some a"
    and "\<not> fle amount zero64"
  shows "\<exists>e'. subtractMoney e username amount = Ok (\<not> flt (Balance a) amount, e') \<and>
          mutex e' = Readers 0 \<and>
          map_of (playerData e') = (map_of (playerData e))
             (ToLower username \<mapsto>
                (if flt (Balance a) amount
                 then a\<lparr>LastSeen := clock e (ticks e)\<rparr>
                 else a\<lparr>LastSeen := clock e (ticks e), Balance := fsub (Balance a) amount,
                        TotalSpent := fadd (TotalSpent a) amount\<rparr>))"
  using assms
  by (auto simp: subtractMoney_def getAccount_existing Lock_def Unlock_def modify_def deref_def
      updateTopPlayers_free map_of_map_entry map_of_touched fun_eq_iff)

lemma transferMoney_rejected:
  "fle amount zero64 \<or> ToLower from = ToLower to \<Longrightarrow> transferMoney e from to amount = Ok (False, e)"
  by (simp add: transferMoney_def)

lemma transferMoney_existing:
  assumes "mutex e = Readers 0" and "0 \<le> TopPlayersLimit (config e)"
    and "map_of (playerData e) (ToLower from) = Some a"
    and "map_of (playerData e) (ToLower to) = Some b"
    and "ToLower from \<noteq> ToLower to" and "\<not> fle amount zero64"
  shows "\<exists>e'. transferMoney e from to amount =
               Ok (\<not> flt (Balance a) amount \<and> \<not> flt (MaxBalance (config e)) (fadd (Balance b) amount), e') \<and>
          mutex e' = Readers 0 \<and>
          map_of (playerData e') = (map_of (playerData e))
             (ToLower from \<mapsto>
                (if flt (Balance a) amount \<or> flt (MaxBalance (config e)) (fadd (Balance b) amount)
                 then a\<lparr>LastSeen := clock e (ticks e)\<rparr>
                 else a\<lparr>LastSeen := clock e (ticks e), Balance := fsub (Balance a) amount,
                        TotalSpent := fadd (TotalSpent a) amount\<rparr>),
              ToLower to \<mapsto>
                (if flt (Balance a) amount \<or> flt (MaxBalance (config e)) (fadd (Balance b) amount)
                 then b\<lparr>LastSeen := clock e (ticks e + 1)\<rparr>
                 else b\<lparr>LastSeen := clock e (ticks e + 1), Balance := fadd (Balance b) amount,
                        TotalEarned := fadd (TotalEarned b) amount\<rparr>))"
proof -
  have g1: "getAccount e from = Ok (ToLower from, touched e from)"
    using assms by (simp add: getAccount_existing)
  have g2: "getAccount (touched e from) to = Ok (ToLower to, touched (touched e from) to)"
    using assms by (simp add: getAccount_existing [where a = b] map_of_touched)
  show ?thesis
    using assms
    by (auto simp: transferMoney_def g1 g2 Lock_def Unlock_def modify_def deref_def
        updateTopPlayers_free map_of_map_entry map_of_touched fun_eq_iff)
qed

subsection \<open>The operations on accounts that do not exist\<close>

text \<open>On a name that is not in the store, every operation that gets past its check of the
  amount stops in \<^verbatim>\<open>createAccount\<close>, with the write lock held and the new account
  stored: the call never returns.\<close>

lemma getBalance_missing:
  "mutex e = Readers 0 \<Longrightarrow> map_of (playerData e) (ToLower username) = None \<Longrightarrow>
   getBalance e username = Blocked (inserted e username)"
  by (simp add: getBalance_def getAccount_missing)

lemma setBalance_missing:
  "mutex e = Readers 0 \<Longrightarrow> map_of (playerData e) (ToLower username) = None \<Longrightarrow>
   \<not> flt amount zero64 \<Longrightarrow> \<not> flt (MaxBalance (config e)) amount \<Longrightarrow>
   setBalance e username amount = Blocked (inserted e username)"
  by (simp add: setBalance_def getAccount_missing)

lemma addMoney_missing:
  "mutex e = Readers 0 \<Longrightarrow> map_of (playerData e) (ToLower username) = None \<Longrightarrow>
   \<not> fle amount zero64 \<Longrightarrow> addMoney e username amount = Blocked (inserted e username)"
  by (simp add: addMoney_def getAccount_missing)

lemma subtractMoney_missing:
  "mutex e = Readers 0 \<Longrightarrow> map_of (playerData e) (ToLower username) = None \<Longrightarrow>
   \<not> fle amount zero64 \<Longrightarrow> subtractMoney e username amount = Blocked (inserted e username)"
  by (simp add: subtractMoney_def getAccount_missing)

lemma transferMoney_missing_source:
  "mutex e = Readers 0 \<Longrightarrow> map_of (playerData e) (ToLower from) = None \<Longrightarrow>
   \<not> fle amount zero64 \<Longrightarrow> ToLower from \<noteq> ToLower to \<Longrightarrow>
   transferMoney e from to amount = Blocked (inserted e from)"
  by (simp add: transferMoney_def getAccount_missing)

lemma transferMoney_missing_destination:
  "mutex e = Readers 0 \<Longrightarrow> map_of (playerData e) (ToLower from) = Some a \<Longrightarrow>
   map_of (playerData e) (ToLower to) = None \<Longrightarrow>
   \<not> fle amount zero64 \<Longrightarrow> ToLower from \<noteq> ToLower to \<Longrightarrow>
   transferMoney e from to amount = Blocked (inserted (touched e from) to)"
  by (simp add: transferMoney_def getAccount_existing getAccount_missing map_of_touched)

text \<open>So an operation that returns success has found its accounts in the store.\<close>

lemma addMoney_success_existing:
  "addMoney e username amount = Ok (True, e') \<Longrightarrow> map_of (playerData e) (ToLower username) \<noteq> None"
  by (cases "getAccount e username")
     (auto simp: addMoney_def dest: getAccount_returns split: if_splits)

subsection \<open>The invariant, for amounts that are not NaN\<close>

text \<open>From a well-formed state, and for an amount that is not a NaN, every call either
  returns in a well-formed state or stops in \<^verbatim>\<open>createAccount\<close> with all balances in
  range; it does not panic. So after every run of calls that return, the balances are in
  range and the ranking is in order and of the claimed length.\<close>

lemma inRange_not_NaN: "inRange mx x \<Longrightarrow> x \<noteq> NaN"
  by (auto simp: inRange_def)

lemma map_fst_map_entry: "map fst (AList.map_entry k f xs) = map fst xs"
  by (induction xs) auto

lemma length_map_entry: "length (AList.map_entry k f xs) = length xs"
  by (induction xs) auto

lemma list_all_map_entry:
  "list_all P xs \<Longrightarrow> (\<And>a. map_of xs k = Some a \<Longrightarrow> P (k, a) \<Longrightarrow> P (k, f a)) \<Longrightarrow>
   list_all P (AList.map_entry k f xs)"
  by (induction xs) auto

lemma list_all_update:
  "list_all P xs \<Longrightarrow> P (k, v) \<Longrightarrow> list_all P (AList.update k v xs)"
  by (induction xs) auto

lemma modify_fields [simp]:
  "mutex (modify k f e) = mutex e" "config (modify k f e) = config e"
  "topPlayers (modify k f e) = topPlayers e"
  "playerData (modify k f e) = AList.map_entry k f (playerData e)"
  by (simp_all add: modify_def)

lemma playerData_touched: "playerData (touched e u) = AList.map_entry (ToLower u) (\<lambda>a. a\<lparr>LastSeen := clock e (ticks e)\<rparr>) (playerData e)"
  by (simp add: touched_def)

lemma ready_touched: "ready e \<Longrightarrow> ready (touched e u)"
  by (simp add: ready_def playerData_touched map_fst_map_entry)

lemma balancesInRange_touched: "balancesInRange e \<Longrightarrow> balancesInRange (touched e u)"
  unfolding balancesInRange_def playerData_touched touched_fields
  by (rule list_all_map_entry) simp_all

lemma topBalances_map_entry:
  assumes "\<And>a. Balance (f a) = Balance a"
  shows "List.map_filter (\<lambda>k'. map_option Balance (map_of (AList.map_entry k f xs) k')) ks =
         List.map_filter (\<lambda>k'. map_option Balance (map_of xs k')) ks"
proof -
  have "\<And>k'. map_option Balance (map_of (AList.map_entry k f xs) k') = map_option Balance (map_of xs k')"
    using assms by (auto simp: map_of_map_entry split: option.splits)
  then show ?thesis by simp
qed

lemma rankingOk_touched: "rankingOk e \<Longrightarrow> rankingOk (touched e u)"
  by (simp add: rankingOk_def topBalances_def playerData_touched topBalances_map_entry length_map_entry)

lemma wellFormed_touched: "wellFormed e \<Longrightarrow> wellFormed (touched e u)"
  by (simp add: wellFormed_def ready_touched balancesInRange_touched rankingOk_touched)

lemma balancesInRange_inserted:
  "ready e \<Longrightarrow> balancesInRange e \<Longrightarrow> balancesInRange (inserted e u)"
  by (simp add: balancesInRange_def inserted_def ready_def list_all_update)

text \<open>Storing the ranking of a state that is ready and in range gives a well-formed state.\<close>

lemma commit:
  assumes "ready e" and "balancesInRange e"
  shows "\<exists>e'. updateTopPlayers e = Ok e' \<and> wellFormed (logIfEnabled e' f t a ty r)"
proof -
  have nn: "\<forall>p \<in> set (playerData e). Balance (snd p) \<noteq> NaN"
    using assms(2) by (auto simp: balancesInRange_def list_all_iff dest: inRange_not_NaN)
  obtain e' where u: "updateTopPlayers e = Ok e'" "playerData e' = playerData e"
    "length (topPlayers e') = min (nat (TopPlayersLimit (config e))) (length (playerData e))"
    "descending (topBalances e')"
    using updateTopPlayers_sorted [of e] assms(1) nn by (auto simp: ready_def)
  have e': "e' = e\<lparr>topPlayers := ranking e\<rparr>"
    using u(1) assms(1) by (simp add: updateTopPlayers_free ready_def)
  have "wellFormed (logIfEnabled e' f t a ty r)"
    using assms u(2,3,4)
    by (simp add: wellFormed_def ready_def rankingOk_def balancesInRange_def topBalances_def e')
  then show ?thesis using u(1) by blast
qed

lemma relock: "mutex e = Readers 0 \<Longrightarrow> (modify k f (e\<lparr>mutex := Writer\<rparr>))\<lparr>mutex := Readers 0\<rparr> = modify k f e"
  by (auto simp: modify_def intro!: EconomyPlugin.equality)

lemma unlock_relock: "mutex e = Readers 0 \<Longrightarrow> e\<lparr>mutex := Writer, mutex := Readers 0\<rparr> = e"
  by (auto intro!: EconomyPlugin.equality)

lemma map_of_in_range:
  "balancesInRange e \<Longrightarrow> map_of (playerData e) k = Some a \<Longrightarrow> inRange (MaxBalance (config e)) (Balance a)"
  by (auto simp: balancesInRange_def list_all_iff dest!: map_of_SomeD)

lemma ready_modify: "ready e \<Longrightarrow> ready (modify k f e)"
  by (simp add: ready_def map_fst_map_entry)

lemma balancesInRange_modify:
  assumes "balancesInRange e"
    and "\<And>a. map_of (playerData e) k = Some a \<Longrightarrow> inRange (MaxBalance (config e)) (Balance (f a))"
  shows "balancesInRange (modify k f e)"
  unfolding balancesInRange_def modify_fields
  by (rule list_all_map_entry) (use assms in \<open>simp_all add: balancesInRange_def\<close>)

lemma safeOutcome_simps [simp]:
  "safeOutcome (Ok e') = wellFormed e'" "safeOutcome (Blocked s) = balancesInRange s"
  "safeOutcome Panic = False"
  by (simp_all add: safeOutcome_def)

lemma safe_commit:
  assumes "ready e" and "balancesInRange e"
  shows "safeOutcome (andThen (andThen (updateTopPlayers e) (\<lambda>e4. Ok (ok, logIfEnabled e4 f t a ty r))) (\<lambda>(ok, e'). Ok e'))"
proof -
  obtain e' where "updateTopPlayers e = Ok e'" "wellFormed (logIfEnabled e' f t a ty r)"
    using commit [OF assms] by blast
  then show ?thesis by simp
qed

lemma wf_ready: "wellFormed e \<Longrightarrow> ready e" and wf_range: "wellFormed e \<Longrightarrow> balancesInRange e"
  and wf_mutex: "wellFormed e \<Longrightarrow> mutex e = Readers 0"
  by (simp_all add: wellFormed_def ready_def)

lemma getBalance_safe:
  assumes "wellFormed e"
  shows "safeOutcome (perform e (GetBalance username))"
proof (cases "map_of (playerData e) (ToLower username)")
  case None
  then show ?thesis
    using assms by (simp add: getBalance_missing wf_mutex balancesInRange_inserted wf_ready wf_range)
next
  case (Some a)
  then show ?thesis
    using assms
    by (simp add: getBalance_def getAccount_existing [where a = a] wf_mutex deref_def
        map_of_touched wellFormed_touched)
qed

lemma setBalance_safe:
  assumes "wellFormed e" and "amount \<noteq> NaN"
  shows "safeOutcome (perform e (SetBalance username amount))"
proof (cases "flt amount zero64 \<or> flt (MaxBalance (config e)) amount")
  case True
  then show ?thesis using assms by (simp add: setBalance_rejected)
next
  case False
  note ok = False
  show ?thesis
  proof (cases "map_of (playerData e) (ToLower username)")
    case None
    then show ?thesis
      using assms ok
      by (simp add: setBalance_missing wf_mutex balancesInRange_inserted wf_ready wf_range)
  next
    case (Some a)
    let ?e3 = "modify (ToLower username) (\<lambda>a. a\<lparr>Balance := amount\<rparr>) (touched e username)"
    have eq: "setBalance e username amount =
        andThen (updateTopPlayers ?e3)
          (\<lambda>e4. Ok (True, logIfEnabled e4 [] username amount SET ''Balance set by admin''))"
      using ok Some assms(1)
      by (simp add: setBalance_def getAccount_existing [where a = a] wf_mutex Lock_def Unlock_def relock)
    have r: "ready ?e3" using assms(1) by (simp add: ready_modify ready_touched wf_ready)
    have "inRange (MaxBalance (config e)) amount"
      using assms ok by (auto intro!: set_in_range simp: wellFormed_def ready_def)
    then have b: "balancesInRange ?e3"
      using assms(1) by (intro balancesInRange_modify) (simp_all add: balancesInRange_touched wf_range)
    show ?thesis
      unfolding perform.simps eq by (rule safe_commit [OF r b])
  qed
qed

lemma addMoney_safe:
  assumes "wellFormed e" and "amount \<noteq> NaN"
  shows "safeOutcome (perform e (AddMoney username amount))"
proof (cases "fle amount zero64")
  case True
  then show ?thesis using assms by (simp add: addMoney_rejected)
next
  case False
  note ok = False
  show ?thesis
  proof (cases "map_of (playerData e) (ToLower username)")
    case None
    then show ?thesis
      using assms ok
      by (simp add: addMoney_missing wf_mutex balancesInRange_inserted wf_ready wf_range)
  next
    case (Some a)
    let ?e3 = "modify (ToLower username)
                 (\<lambda>a. a\<lparr>Balance := fadd (Balance a) amount, TotalEarned := fadd (TotalEarned a) amount\<rparr>)
                 (touched e username)"
    have eq: "addMoney e username amount =
        (if flt (MaxBalance (config e)) (fadd (Balance a) amount) then Ok (False, touched e username)
         else andThen (updateTopPlayers ?e3)
                (\<lambda>e4. Ok (True, logIfEnabled e4 [] username amount ADD ''Money added'')))"
      using ok Some assms(1)
      by (simp add: addMoney_def getAccount_existing [where a = a] wf_mutex Lock_def Unlock_def
          relock unlock_relock deref_def map_of_touched)
    show ?thesis
    proof (cases "flt (MaxBalance (config e)) (fadd (Balance a) amount)")
      case True
      then show ?thesis using assms(1) by (simp add: eq wellFormed_touched)
    next
      case False
      have r: "ready ?e3" using assms(1) by (simp add: ready_modify ready_touched wf_ready)
      have "inRange (MaxBalance (config e)) (fadd (Balance a) amount)"
        using assms ok False Some
        by (auto intro!: fadd_in_range map_of_in_range simp: wellFormed_def ready_def)
      then have b: "balancesInRange ?e3"
        using assms(1) Some
        by (intro balancesInRange_modify) (auto simp: balancesInRange_touched wf_range map_of_touched)
      show ?thesis
        unfolding perform.simps eq using False safe_commit [OF r b] by simp
    qed
  qed
qed

lemma subtractMoney_safe:
  assumes "wellFormed e" and "amount \<noteq> NaN"
  shows "safeOutcome (perform e (SubtractMoney username amount))"
proof (cases "fle amount zero64")
  case True
  then show ?thesis using assms by (simp add: subtractMoney_rejected)
next
  case False
  note ok = False
  show ?thesis
  proof (cases "map_of (playerData e) (ToLower username)")
    case None
    then show ?thesis
      using assms ok
      by (simp add: subtractMoney_missing wf_mutex balancesInRange_inserted wf_ready wf_range)
  next
    case (Some a)
    let ?e3 = "modify (ToLower username)
                 (\<lambda>a. a\<lparr>Balance := fsub (Balance a) amount, TotalSpent := fadd (TotalSpent a) amount\<rparr>)
                 (touched e username)"
    have eq: "subtractMoney e username amount =
        (if flt (Balance a) amount then Ok (False, touched e username)
         else andThen (updateTopPlayers ?e3)
                (\<lambda>e4. Ok (True, logIfEnabled e4 username [] amount SUBTRACT ''Money subtracted'')))"
      using ok Some assms(1)
      by (simp add: subtractMoney_def getAccount_existing [where a = a] wf_mutex Lock_def Unlock_def
          relock unlock_relock deref_def map_of_touched)
    show ?thesis
    proof (cases "flt (Balance a) amount")
      case True
      then show ?thesis using assms(1) by (simp add: eq wellFormed_touched)
    next
      case False
      have r: "ready ?e3" using assms(1) by (simp add: ready_modify ready_touched wf_ready)
      have "inRange (MaxBalance (config e)) (fsub (Balance a) amount)"
        using assms ok False Some
        by (auto intro!: fsub_in_range map_of_in_range simp: wellFormed_def ready_def)
      then have b: "balancesInRange ?e3"
        using assms(1) Some
        by (intro balancesInRange_modify) (auto simp: balancesInRange_touched wf_range map_of_touched)
      show ?thesis
        unfolding perform.simps eq using False safe_commit [OF r b] by simp
    qed
  qed
qed

lemma transferMoney_safe:
  assumes "wellFormed e" and "amount \<noteq> NaN"
  shows "safeOutcome (perform e (TransferMoney from to amount))"
proof (cases "fle amount zero64 \<or> ToLower from = ToLower to")
  case True
  then show ?thesis using assms by (simp add: transferMoney_rejected)
next
  case False
  then have ok: "\<not> fle amount zero64" and ne: "ToLower from \<noteq> ToLower to" by simp_all
  show ?thesis
  proof (cases "map_of (playerData e) (ToLower from)")
    case None
    then show ?thesis
      using assms ok ne
      by (simp add: transferMoney_missing_source wf_mutex balancesInRange_inserted wf_ready wf_range)
  next
    case (Some a)
    note fa = Some
    show ?thesis
    proof (cases "map_of (playerData e) (ToLower to)")
      case None
      then show ?thesis
        using assms ok ne fa
        by (simp add: transferMoney_missing_destination [where a = a] wf_mutex balancesInRange_inserted
            ready_touched balancesInRange_touched wf_ready wf_range)
    next
      case (Some b)
      let ?tt = "touched (touched e from) to"
      let ?e2 = "modify (ToLower from)
                  (\<lambda>a. a\<lparr>Balance := fsub (Balance a) amount, TotalSpent := fadd (TotalSpent a) amount\<rparr>) ?tt"
      let ?e3 = "modify (ToLower to)
                  (\<lambda>a. a\<lparr>Balance := fadd (Balance a) amount, TotalEarned := fadd (TotalEarned a) amount\<rparr>) ?e2"
      have g1: "getAccount e from = Ok (ToLower from, touched e from)"
        using fa assms(1) by (simp add: getAccount_existing [where a = a] wf_mutex)
      have g2: "getAccount (touched e from) to = Ok (ToLower to, ?tt)"
        using Some ne assms(1) by (simp add: getAccount_existing [where a = b] wf_mutex map_of_touched)
      have mf: "map_of (playerData ?tt) (ToLower from) = Some (a\<lparr>LastSeen := clock e (ticks e)\<rparr>)"
        using fa ne by (simp add: map_of_touched)
      have mt: "map_of (playerData ?tt) (ToLower to) = Some (b\<lparr>LastSeen := clock e (ticks e + 1)\<rparr>)"
        using Some ne by (simp add: map_of_touched)
      have eq: "transferMoney e from to amount =
          (if flt (Balance a) amount \<or> flt (MaxBalance (config e)) (fadd (Balance b) amount)
           then Ok (False, ?tt)
           else andThen (updateTopPlayers ?e3)
                  (\<lambda>e5. Ok (True, logIfEnabled e5 from to amount TRANSFER ''Money transfer'')))"
      proof -
        have m: "mutex ?tt = Readers 0" using assms(1) by (simp add: wf_mutex)
        have re: "(modify (ToLower to)
                  (\<lambda>a. a\<lparr>Balance := fadd (Balance a) amount, TotalEarned := fadd (TotalEarned a) amount\<rparr>)
                  (modify (ToLower from)
                  (\<lambda>a. a\<lparr>Balance := fsub (Balance a) amount, TotalSpent := fadd (TotalSpent a) amount\<rparr>)
                  (?tt\<lparr>mutex := Writer\<rparr>)))\<lparr>mutex := Readers 0\<rparr> = ?e3"
          using m by (auto simp: modify_def intro!: EconomyPlugin.equality)
        have d1: "deref (?tt\<lparr>mutex := Writer\<rparr>) (ToLower from) = Ok (a\<lparr>LastSeen := clock e (ticks e)\<rparr>)"
          using mf by (simp add: deref_def)
        have d2: "deref (?tt\<lparr>mutex := Writer\<rparr>) (ToLower to) = Ok (b\<lparr>LastSeen := clock e (ticks e + 1)\<rparr>)"
          using mt by (simp add: deref_def)
        show ?thesis
          using ok ne m
          by (simp add: transferMoney_def g1 g2 Lock_def Unlock_def d1 d2 re unlock_relock)
      qed
      have wt: "wellFormed ?tt" using assms(1) by (simp add: wellFormed_touched)
      show ?thesis
      proof (cases "flt (Balance a) amount \<or> flt (MaxBalance (config e)) (fadd (Balance b) amount)")
        case True
        then show ?thesis using wt by (simp add: eq)
      next
        case False
        have r: "ready ?e3" using wt by (simp add: ready_modify wf_ready)
        have ra: "inRange (MaxBalance (config e)) (fsub (Balance a) amount)"
          using assms ok False fa
          by (auto intro!: fsub_in_range map_of_in_range simp: wellFormed_def ready_def)
        have rb: "inRange (MaxBalance (config e)) (fadd (Balance b) amount)"
          using assms ok False Some
          by (auto intro!: fadd_in_range map_of_in_range simp: wellFormed_def ready_def)
        have b2: "balancesInRange ?e2"
          using wt ra mf by (intro balancesInRange_modify) (auto simp: wf_range)
        have mt2: "map_of (playerData ?e2) (ToLower to) = Some (b\<lparr>LastSeen := clock e (ticks e + 1)\<rparr>)"
          using mt ne by (simp add: map_of_map_entry)
        have b3: "balancesInRange ?e3"
        proof (rule balancesInRange_modify)
          show "balancesInRange ?e2" by (rule b2)
        next
          fix x
          assume "map_of (playerData ?e2) (ToLower to) = Some x"
          then show "inRange (MaxBalance (config ?e2))
              (Balance (x\<lparr>Balance := fadd (Balance x) amount, TotalEarned := fadd (TotalEarned x) amount\<rparr>))"
            using mt2 rb by simp
        qed
        show ?thesis
          unfolding perform.simps eq using False safe_commit [OF r b3] by simp
      qed
    qed
  qed
qed

theorem perform_safe:
  assumes "wellFormed e" and "amountGiven op \<noteq> NaN"
  shows "safeOutcome (perform e op)"
  using assms
  by (cases op)
     (auto intro: getBalance_safe setBalance_safe addMoney_safe subtractMoney_safe
        transferMoney_safe simp del: perform.simps)

theorem performAll_wellFormed:
  assumes "wellFormed e" and "list_all (\<lambda>op. amountGiven op \<noteq> NaN) ops"
    and "performAll e ops = Ok e'"
  shows "wellFormed e'"
  using assms
proof (induction ops arbitrary: e)
  case Nil
  then show ?case by simp
next
  case (Cons op ops)
  have s: "safeOutcome (perform e op)"
    using Cons.prems(1,2) by (simp add: perform_safe)
  show ?case
  proof (cases "perform e op")
    case (Ok e1)
    then show ?thesis
      using Cons.IH [of e1] Cons.prems s by simp
  next
    case (Blocked s)
    then show ?thesis using Cons.prems(3) by simp
  next
    case Panic
    then show ?thesis using Cons.prems(3) by simp
  qed
qed


text \<open>The plugin as it is built and the two example ledgers are well-formed.\<close>

lemma finiteBound_Fin: "finiteBound (Fin False m) = (0 \<le> m \<and> m < 2 ^ 1024 \<and> roundMag m = m)"
  by (simp add: finiteBound_def)

lemma finiteBound_million: "finiteBound (Fin False 1000000)"
  unfolding finiteBound_Fin by (intro conjI) (simp_all add: float_defs)

lemma freshPlugin_wellFormed: "wellFormed freshPlugin"
  by (simp add: wellFormed_def ready_def rankingOk_def demo_defs float_defs map_filter_simps
      finiteBound_million)

lemma demoLedger_wellFormed: "wellFormed demoLedger"
  by (simp add: wellFormed_def ready_def rankingOk_def demo_defs float_defs map_filter_simps
      finiteBound_million)

lemma testLedger_wellFormed: "wellFormed testLedger"
  by (simp add: wellFormed_def ready_def rankingOk_def demo_defs float_defs map_filter_simps
      finiteBound_million)

subsection \<open>What a call that returns has done\<close>

text \<open>From any state whatever: a transfer, a credit or a debit that returns \<^verbatim>\<open>true\<close> has
  found its accounts in the store and has stored in each the binary64 sum or difference
  (\<open>fadd\<close>, \<open>fsub\<close>) of its old balance and the amount, on both sides of a transfer;
  one that returns \<^verbatim>\<open>false\<close> has changed no balance. The sum and the difference are
  rounded, each on its own: an amount too small for the balance that receives it leaves
  that balance as it was while the other side changes, so that what a transfer takes
  from one account need not be what it gives to the other.\<close>

lemma balances_map_entry:
  "(\<And>a. Balance (f a) = Balance a) \<Longrightarrow>
   map (\<lambda>(k, a). (k, Balance a)) (AList.map_entry k f xs) = map (\<lambda>(k, a). (k, Balance a)) xs"
  by (induction xs) auto

lemma balances_touched: "balances (touched e u) = balances e"
  by (simp add: balances_def playerData_touched balances_map_entry)

lemma transferMoney_all_or_nothing:
  assumes "transferMoney e from to amount = Ok (ok, e')"
  shows "if ok
         then \<exists>a b. map_of (playerData e) (ToLower from) = Some a \<and>
                map_of (playerData e) (ToLower to) = Some b \<and>
                map_of (playerData e') (ToLower from) =
                  Some (a\<lparr>LastSeen := clock e (ticks e), Balance := fsub (Balance a) amount,
                         TotalSpent := fadd (TotalSpent a) amount\<rparr>) \<and>
                map_of (playerData e') (ToLower to) =
                  Some (b\<lparr>LastSeen := clock e (ticks e + 1), Balance := fadd (Balance b) amount,
                         TotalEarned := fadd (TotalEarned b) amount\<rparr>)
         else balances e' = balances e"
proof (cases "fle amount zero64 \<or> ToLower from = ToLower to")
  case True
  then show ?thesis using assms by (auto simp: transferMoney_rejected)
next
  case False
  then have ok: "\<not> fle amount zero64" and ne: "ToLower from \<noteq> ToLower to" by simp_all
  obtain r1 where g1: "getAccount e from = Ok r1"
    using assms False by (cases "getAccount e from") (auto simp: transferMoney_def)
  then obtain a where a: "map_of (playerData e) (ToLower from) = Some a"
    and r1: "r1 = (ToLower from, touched e from)"
    using getAccount_returns [OF g1] by auto
  obtain r2 where g2: "getAccount (touched e from) to = Ok r2"
    using assms False g1 r1 by (cases "getAccount (touched e from) to") (auto simp: transferMoney_def)
  then obtain b' where "map_of (playerData (touched e from)) (ToLower to) = Some b'"
    and r2: "r2 = (ToLower to, touched (touched e from) to)"
    using getAccount_returns [OF g2] by auto
  then obtain b where b: "map_of (playerData e) (ToLower to) = Some b"
    using ne by (auto simp: map_of_touched)
  have m: "mutex e = Readers 0"
    using assms False g1 r1 g2 r2
    by (cases "mutex e") (auto simp: transferMoney_def Lock_def split: if_splits)
  show ?thesis
  proof (cases "0 \<le> TopPlayersLimit (config e)")
    case True
    obtain e'' where t: "transferMoney e from to amount =
               Ok (\<not> flt (Balance a) amount \<and> \<not> flt (MaxBalance (config e)) (fadd (Balance b) amount), e'')"
      "map_of (playerData e'') = (map_of (playerData e))
             (ToLower from \<mapsto>
                (if flt (Balance a) amount \<or> flt (MaxBalance (config e)) (fadd (Balance b) amount)
                 then a\<lparr>LastSeen := clock e (ticks e)\<rparr>
                 else a\<lparr>LastSeen := clock e (ticks e), Balance := fsub (Balance a) amount,
                        TotalSpent := fadd (TotalSpent a) amount\<rparr>),
              ToLower to \<mapsto>
                (if flt (Balance a) amount \<or> flt (MaxBalance (config e)) (fadd (Balance b) amount)
                 then b\<lparr>LastSeen := clock e (ticks e + 1)\<rparr>
                 else b\<lparr>LastSeen := clock e (ticks e + 1), Balance := fadd (Balance b) amount,
                        TotalEarned := fadd (TotalEarned b) amount\<rparr>))"
      using transferMoney_existing [OF m True a b ne ok] by blast
    show ?thesis
    proof (cases ok)
      case True
      then show ?thesis using assms t a b ne by auto
    next
      case False
      have d1: "deref ((touched (touched e from) to)\<lparr>mutex := Writer\<rparr>) (ToLower from) = Ok (a\<lparr>LastSeen := clock e (ticks e)\<rparr>)"
        using a ne by (simp add: deref_def map_of_touched)
      have d2: "deref ((touched (touched e from) to)\<lparr>mutex := Writer\<rparr>) (ToLower to) = Ok (b\<lparr>LastSeen := clock e (ticks e + 1)\<rparr>)"
        using b ne by (simp add: deref_def map_of_touched)
      have "e' = touched (touched e from) to"
        using assms False ok ne g1 r1 g2 r2 m t(1)
        by (auto simp: transferMoney_def Lock_def Unlock_def d1 d2 unlock_relock split: if_splits)
      then show ?thesis using False by (simp add: balances_touched)
    qed
  next
    case False
    have d1: "deref ((touched (touched e from) to)\<lparr>mutex := Writer\<rparr>) (ToLower from) = Ok (a\<lparr>LastSeen := clock e (ticks e)\<rparr>)"
      using a ne by (simp add: deref_def map_of_touched)
    have d2: "deref ((touched (touched e from) to)\<lparr>mutex := Writer\<rparr>) (ToLower to) = Ok (b\<lparr>LastSeen := clock e (ticks e + 1)\<rparr>)"
      using b ne by (simp add: deref_def map_of_touched)
    have "ok = False \<and> e' = touched (touched e from) to"
      using assms False ok ne g1 r1 g2 r2 m
      by (auto simp: transferMoney_def Lock_def Unlock_def d1 d2 unlock_relock updateTopPlayers_def
          RLock_def Let_def split: if_splits)
    then show ?thesis by (simp add: balances_touched)
  qed
qed


lemma addMoney_returns:
  assumes "addMoney e username amount = Ok (ok, e')"
  shows "if ok
         then \<exists>a. map_of (playerData e) (ToLower username) = Some a \<and>
                \<not> fle amount zero64 \<and> \<not> flt (MaxBalance (config e)) (fadd (Balance a) amount) \<and>
                map_of (playerData e') (ToLower username) =
                  Some (a\<lparr>LastSeen := clock e (ticks e), Balance := fadd (Balance a) amount,
                         TotalEarned := fadd (TotalEarned a) amount\<rparr>)
         else balances e' = balances e"
proof (cases "fle amount zero64")
  case True
  then show ?thesis using assms by (auto simp: addMoney_rejected)
next
  case False
  obtain r1 where g1: "getAccount e username = Ok r1"
    using assms False by (cases "getAccount e username") (auto simp: addMoney_def)
  then obtain a where a: "map_of (playerData e) (ToLower username) = Some a"
    and r1: "r1 = (ToLower username, touched e username)"
    using getAccount_returns [OF g1] by auto
  have m: "mutex e = Readers 0"
    using assms False g1 r1
    by (cases "mutex e") (auto simp: addMoney_def Lock_def split: if_splits)
  have d: "deref ((touched e username)\<lparr>mutex := Writer\<rparr>) (ToLower username) = Ok (a\<lparr>LastSeen := clock e (ticks e)\<rparr>)"
    using a by (simp add: deref_def map_of_touched)
  show ?thesis
  proof (cases "0 \<le> TopPlayersLimit (config e)")
    case True
    obtain e'' where t: "addMoney e username amount =
               Ok (\<not> flt (MaxBalance (config e)) (fadd (Balance a) amount), e'')"
      "map_of (playerData e'') = (map_of (playerData e))
             (ToLower username \<mapsto>
                (if flt (MaxBalance (config e)) (fadd (Balance a) amount)
                 then a\<lparr>LastSeen := clock e (ticks e)\<rparr>
                 else a\<lparr>LastSeen := clock e (ticks e), Balance := fadd (Balance a) amount,
                        TotalEarned := fadd (TotalEarned a) amount\<rparr>))"
      using addMoney_existing [OF m True a False] by blast
    show ?thesis
    proof (cases ok)
      case True
      then show ?thesis using assms t a False by auto
    next
      case nok: False
      have "e' = touched e username"
        using assms False g1 r1 m t(1) nok
        by (auto simp: addMoney_def Lock_def Unlock_def d unlock_relock split: if_splits)
      then show ?thesis using nok by (simp add: balances_touched)
    qed
  next
    case neg: False
    have "ok = False \<and> e' = touched e username"
      using assms False neg g1 r1 m
      by (auto simp: addMoney_def Lock_def Unlock_def d unlock_relock updateTopPlayers_def
          RLock_def Let_def split: if_splits)
    then show ?thesis by (simp add: balances_touched)
  qed
qed

lemma subtractMoney_returns:
  assumes "subtractMoney e username amount = Ok (ok, e')"
  shows "if ok
         then \<exists>a. map_of (playerData e) (ToLower username) = Some a \<and>
                \<not> fle amount zero64 \<and> \<not> flt (Balance a) amount \<and>
                map_of (playerData e') (ToLower username) =
                  Some (a\<lparr>LastSeen := clock e (ticks e), Balance := fsub (Balance a) amount,
                         TotalSpent := fadd (TotalSpent a) amount\<rparr>)
         else balances e' = balances e"
proof (cases "fle amount zero64")
  case True
  then show ?thesis using assms by (auto simp: subtractMoney_rejected)
next
  case False
  obtain r1 where g1: "getAccount e username = Ok r1"
    using assms False by (cases "getAccount e username") (auto simp: subtractMoney_def)
  then obtain a where a: "map_of (playerData e) (ToLower username) = Some a"
    and r1: "r1 = (ToLower username, touched e username)"
    using getAccount_returns [OF g1] by auto
  have m: "mutex e = Readers 0"
    using assms False g1 r1
    by (cases "mutex e") (auto simp: subtractMoney_def Lock_def split: if_splits)
  have d: "deref ((touched e username)\<lparr>mutex := Writer\<rparr>) (ToLower username) = Ok (a\<lparr>LastSeen := clock e (ticks e)\<rparr>)"
    using a by (simp add: deref_def map_of_touched)
  show ?thesis
  proof (cases "0 \<le> TopPlayersLimit (config e)")
    case True
    obtain e'' where t: "subtractMoney e username amount = Ok (\<not> flt (Balance a) amount, e'')"
      "map_of (playerData e'') = (map_of (playerData e))
             (ToLower username \<mapsto>
                (if flt (Balance a) amount
                 then a\<lparr>LastSeen := clock e (ticks e)\<rparr>
                 else a\<lparr>LastSeen := clock e (ticks e), Balance := fsub (Balance a) amount,
                        TotalSpent := fadd (TotalSpent a) amount\<rparr>))"
      using subtractMoney_existing [OF m True a False] by blast
    show ?thesis
    proof (cases ok)
      case True
      then show ?thesis using assms t a False by auto
    next
      case nok: False
      have "e' = touched e username"
        using assms False g1 r1 m t(1) nok
        by (auto simp: subtractMoney_def Lock_def Unlock_def d unlock_relock split: if_splits)
      then show ?thesis using nok by (simp add: balances_touched)
    qed
  next
    case neg: False
    have "ok = False \<and> e' = touched e username"
      using assms False neg g1 r1 m
      by (auto simp: subtractMoney_def Lock_def Unlock_def d unlock_relock updateTopPlayers_def
          RLock_def Let_def split: if_splits)
    then show ?thesis by (simp add: balances_touched)
  qed
qed

text \<open>A credit of \<open>2^(- 40)\<close> to a balance of 999999 is lost in the rounding: the unit in
  the last place of that balance is \<open>2^(- 33)\<close>.\<close>

lemma fadd_absorbs_small_amount: "fadd (Fin False 999999) (Fin False (1 / 2 ^ 40)) = Fin False 999999"
proof -
  define r :: rat where "r = 999999 + 1 / 2 ^ 40"
  have b: "999999 \<le> r" "r < 1000000" "1 \<le> r" "r \<noteq> 0" "\<bar>r\<bar> = r" "\<not> r < 0"
    by (simp_all add: r_def)
  have fl: "\<lfloor>r\<rfloor> = 999999"
    using b(1,2) by (simp add: floor_eq_iff)
  have lg: "floorLog2 999999 = 19"
    by (simp add: floorLog2.simps)
  have il: "ilog2 r = 19"
    using b(3) by (simp add: ilog2_def fl lg)
  have ue: "ulpExp r = - 33"
    by (simp add: ulpExp_def il)
  have p: "pow2 (- 33) = 1 / 2 ^ 33"
    by (simp add: pow2_def)
  define q :: rat where "q = r / pow2 (ulpExp r)"
  have q: "q = 999999 * 2 ^ 33 + 1 / 2 ^ 7"
    unfolding q_def ue p by (simp add: r_def)
  have fq: "\<lfloor>q\<rfloor> = 999999 * 2 ^ 33"
    unfolding q by (simp add: floor_eq_iff)
  have fr: "q - of_int \<lfloor>q\<rfloor> < 1 / 2"
    unfolding fq unfolding q by simp
  have rh: "roundHalfEven q = 999999 * 2 ^ 33"
    using fr by (simp add: roundHalfEven_def fq)
  have "roundMag r = of_int (roundHalfEven q) * pow2 (ulpExp r)"
    unfolding roundMag_def q_def ..
  then have rm: "roundMag r = 999999"
    unfolding rh ue p by simp
  have "round64 r = Fin False 999999"
    unfolding round64_def b(5) rm using b(6) by simp
  moreover have "fadd (Fin False 999999) (Fin False (1 / 2 ^ 40)) = round64 r"
    using b(4) by (simp add: signedVal_def r_def)
  ultimately show ?thesis by simp
qed

subsection \<open>The lines of the audit log\<close>

text \<open>The digits that \<^verbatim>\<open>showNat\<close> and \<^verbatim>\<open>padZero\<close> print are the digits of the stamp and of
  the decimal numeral, and the cents that \<^verbatim>\<open>%.2f\<close> prints are the nearest ones.\<close>

lemma digitChar_decimalDigit: "d < 10 \<Longrightarrow> digitChar d = decimalDigit d"
proof -
  assume "d < 10"
  then have "d = 0 \<or> d = 1 \<or> d = 2 \<or> d = 3 \<or> d = 4 \<or> d = 5 \<or> d = 6 \<or> d = 7 \<or> d = 8 \<or> d = 9"
    by presburger
  then show ?thesis
    by (elim disjE) (simp_all add: digitChar_def decimalDigit_def char_of_def bit_Suc_0_iff)
qed

lemma of_char_digitChar: "d < 10 \<Longrightarrow> of_char (digitChar d) = 48 + d"
  by (simp add: digitChar_def)

lemma showNat_small: "n < 10 \<Longrightarrow> showNat n = [digitChar n]"
  by (subst showNat.simps) simp

lemma showNat_step: "10 \<le> n \<Longrightarrow> showNat n = showNat (n div 10) @ [digitChar (n mod 10)]"
  by (subst showNat.simps) simp

lemma replicate_small: "replicate 2 x = [x, x]" "replicate 3 x = [x, x, x]"
  by (simp_all add: numeral_2_eq_2 numeral_3_eq_3)

lemma showNat2: "n < 100 \<Longrightarrow> padZero 2 (showNat n) = twoDigits n"
proof (cases "n < 10")
  case True
  then show ?thesis
    by (simp add: showNat_small padZero_def twoDigits_def digitChar_decimalDigit decimalDigit_def)
next
  case False
  assume "n < 100"
  then have "n div 10 < 10" by simp
  then show ?thesis
    using False
    by (simp add: showNat_step showNat_small padZero_def twoDigits_def digitChar_decimalDigit)
qed

lemma div_ten_twice: "n div 10 div 10 = n div 100" "n div 100 div 10 = n div (1000::nat)"
  by (simp_all add: div_mult2_eq [symmetric])

lemma showNat4: "n < 10000 \<Longrightarrow> padZero 4 (showNat n) = fourDigits n"
proof -
  assume n: "n < 10000"
  consider "n < 10" | "10 \<le> n" "n < 100" | "100 \<le> n" "n < 1000" | "1000 \<le> n"
    by linarith
  then show ?thesis
  proof cases
    case 1
    then show ?thesis
      by (simp add: showNat_small padZero_def fourDigits_def digitChar_decimalDigit decimalDigit_def
          replicate_small)
  next
    case 2
    then have "n div 10 < 10" by simp
    then show ?thesis
      using 2
      by (simp add: showNat_step showNat_small padZero_def fourDigits_def digitChar_decimalDigit
          decimalDigit_def replicate_small)
  next
    case 3
    have s1: "showNat n = showNat (n div 10) @ [digitChar (n mod 10)]"
      using 3 by (intro showNat_step) simp
    have s2: "showNat (n div 10) = showNat (n div 100) @ [digitChar (n div 10 mod 10)]"
      using showNat_step [of "n div 10"] 3 by (simp add: div_ten_twice)
    have s3: "showNat (n div 100) = [digitChar (n div 100)]"
      using 3 by (intro showNat_small) simp
    have z: "n div 1000 = 0" "n div 100 mod 10 = n div 100" "n div 100 < 10" using 3 by simp_all
    show ?thesis
      unfolding s1 s2 s3
      using z by (simp add: padZero_def fourDigits_def digitChar_decimalDigit decimalDigit_def)
  next
    case 4
    have s1: "showNat n = showNat (n div 10) @ [digitChar (n mod 10)]"
      using 4 by (intro showNat_step) simp
    have s2: "showNat (n div 10) = showNat (n div 100) @ [digitChar (n div 10 mod 10)]"
      using showNat_step [of "n div 10"] 4 by (simp add: div_ten_twice)
    have s3: "showNat (n div 100) = showNat (n div 1000) @ [digitChar (n div 100 mod 10)]"
      using showNat_step [of "n div 100"] 4 by (simp add: div_ten_twice)
    have s4: "showNat (n div 1000) = [digitChar (n div 1000)]"
      using n by (intro showNat_small) simp
    have z: "n div 1000 mod 10 = n div 1000" "n div 1000 < 10" using n by simp_all
    show ?thesis
      unfolding s1 s2 s3 s4
      using z by (simp add: padZero_def fourDigits_def digitChar_decimalDigit)
  qed
qed

lemma formatTime_stampOf: "civil t \<Longrightarrow> formatTime t = stampOf t"
  by (simp add: civil_def formatTime_def stampOf_def showNat2 showNat4)

lemma digitChar_in_digits: "d < 10 \<Longrightarrow> digitChar d \<in> set ''0123456789''"
proof -
  assume "d < 10"
  then have "d = 0 \<or> d = 1 \<or> d = 2 \<or> d = 3 \<or> d = 4 \<or> d = 5 \<or> d = 6 \<or> d = 7 \<or> d = 8 \<or> d = 9"
    by presburger
  then show ?thesis
    by (elim disjE) (simp_all add: digitChar_def char_of_def bit_Suc_0_iff)
qed

lemma showNat_digits: "list_all (\<lambda>c. c \<in> set ''0123456789'') (showNat n)"
proof (induction n rule: showNat.induct)
  case (1 n)
  show ?case
  proof (cases "n < 10")
    case True
    then show ?thesis using digitChar_in_digits [of n] by (simp add: showNat_small)
  next
    case False
    then show ?thesis
      using "1.IH" digitChar_in_digits [of "n mod 10"] by (simp add: showNat_step)
  qed
qed

lemma decimalValue_snoc: "decimalValue (ds @ [c]) = 10 * decimalValue ds + (of_char c - 48)"
  by (simp add: decimalValue_def)

lemma decimalValue_showNat: "decimalValue (showNat n) = n"
proof (induction n rule: showNat.induct)
  case (1 n)
  show ?case
  proof (cases "n < 10")
    case True
    then show ?thesis by (simp add: showNat_small decimalValue_def of_char_digitChar)
  next
    case False
    then have "decimalValue (showNat n) = 10 * (n div 10) + n mod 10"
      using "1.IH" by (simp add: showNat_step decimalValue_snoc of_char_digitChar)
    then show ?thesis by simp
  qed
qed

lemma showNat_not_empty: "showNat n \<noteq> []"
  by (subst showNat.simps) simp

lemma hd_showNat: "0 < n \<Longrightarrow> hd (showNat n) \<noteq> CHR ''0''"
proof (induction n rule: showNat.induct)
  case (1 n)
  show ?case
  proof (cases "n < 10")
    case True
    have "of_char (digitChar n) \<noteq> (of_char (CHR ''0'') :: nat)"
      using True "1.prems" by (simp add: of_char_digitChar)
    then have "digitChar n \<noteq> CHR ''0''" by auto
    then show ?thesis using True by (simp add: showNat_small)
  next
    case False
    then have "0 < n div 10" by simp
    then have "hd (showNat (n div 10)) \<noteq> CHR ''0''" using "1.IH" False by simp
    then show ?thesis using False by (simp add: showNat_step showNat_not_empty)
  qed
qed

lemma isDecimal_showNat: "isDecimal (showNat n)"
proof (cases "n = 0")
  case True
  then show ?thesis
    by (simp add: isDecimal_def showNat_small digitChar_def char_of_def bit_Suc_0_iff)
next
  case False
  then show ?thesis
    using hd_showNat [of n] showNat_digits [of n] by (simp add: isDecimal_def showNat_not_empty)
qed

lemma nearestCents_roundHalfEven:
  assumes "0 \<le> m"
  shows "nearestCents m (nat (roundHalfEven (m * 100)))"
proof -
  define x where "x = m * 100"
  have x: "0 \<le> x" using assms by (simp add: x_def)
  then have f: "0 \<le> \<lfloor>x\<rfloor>" by simp
  have r: "0 \<le> roundHalfEven x" using roundHalfEven_ge [of 0 x] x by simp
  have c: "of_nat (nat (roundHalfEven x)) = (of_int (roundHalfEven x) :: rat)"
    using r by simp
  have e: "even (nat (roundHalfEven x)) = even (roundHalfEven x)"
    using r by (simp add: even_nat_iff)
  have lo: "of_int \<lfloor>x\<rfloor> \<le> x" and hi: "x < of_int \<lfloor>x\<rfloor> + 1"
    by linarith+
  have "\<bar>of_int (roundHalfEven x) - x\<bar> < 1 / 2 \<or>
        (\<bar>of_int (roundHalfEven x) - x\<bar> = 1 / 2 \<and> even (roundHalfEven x))"
  proof (cases "x - of_int \<lfloor>x\<rfloor> < 1 / 2")
    case True
    then have "roundHalfEven x = \<lfloor>x\<rfloor>" by (simp add: roundHalfEven_def)
    then show ?thesis using True lo by simp
  next
    case False
    show ?thesis
    proof (cases "1 / 2 < x - of_int \<lfloor>x\<rfloor>")
      case True
      then have "roundHalfEven x = \<lfloor>x\<rfloor> + 1" using False by (simp add: roundHalfEven_def)
      then show ?thesis using True hi by simp
    next
      case half: False
      then have h: "x - of_int \<lfloor>x\<rfloor> = 1 / 2" using False by simp
      show ?thesis
      proof (cases "even \<lfloor>x\<rfloor>")
        case True
        then have "roundHalfEven x = \<lfloor>x\<rfloor>" using False half by (simp add: roundHalfEven_def)
        then show ?thesis using True h by simp
      next
        case odd: False
        then have "roundHalfEven x = \<lfloor>x\<rfloor> + 1" using False half by (simp add: roundHalfEven_def)
        then show ?thesis using odd h by simp
      qed
    qed
  qed
  then show ?thesis
    unfolding nearestCents_def x_def [symmetric] c e .
qed

lemma formatFloat2_Fin:
  assumes "0 \<le> m"
  shows "\<exists>whole c. nearestCents m c \<and> isDecimal whole \<and> decimalValue whole = c div 100 \<and>
           formatFloat2 (Fin s m) = amountText s whole (c mod 100)"
proof (intro exI conjI)
  show "nearestCents m (nat (roundHalfEven (m * 100)))"
    using assms by (rule nearestCents_roundHalfEven)
  show "isDecimal (showNat (nat (roundHalfEven (m * 100)) div 100))"
    by (rule isDecimal_showNat)
  show "decimalValue (showNat (nat (roundHalfEven (m * 100)) div 100)) = nat (roundHalfEven (m * 100)) div 100"
    by (rule decimalValue_showNat)
  show "formatFloat2 (Fin s m) =
          amountText s (showNat (nat (roundHalfEven (m * 100)) div 100))
            (nat (roundHalfEven (m * 100)) mod 100)"
    by (simp add: formatFloat2_def amountText_def showNat2)
qed

lemma logIfEnabled_appends:
  assumes "EnableLogging (config e)" and "transactionsLog e = Some content"
  shows "transactionsLog (logIfEnabled e src dst amount kind reason) =
           Some (content @ ''['' @ formatTime (clock e (ticks e)) @ ''] '' @ src @ '' -> '' @ dst @
                 '': '' @ CurrencySymbol (config e) @ formatFloat2 amount @ '' (Type: '' @
                 showNat (typeNumber kind) @ '', Reason: '' @ reason @ '')'' @ [CHR 0x0A])"
  using assms by (simp add: logIfEnabled_def logTransaction_def logEntry_def timeNow_def)

lemma logIfEnabled_auditLine:
  assumes "EnableLogging (config e)" and "transactionsLog e = Some content" and "0 \<le> m"
    and "civil (clock e (ticks e))"
  shows "\<exists>whole c. nearestCents m c \<and> isDecimal whole \<and> decimalValue whole = c div 100 \<and>
           transactionsLog (logIfEnabled e src dst (Fin s m) kind reason) =
             Some (content @ auditLine (clock e (ticks e)) src dst (CurrencySymbol (config e))
                     (amountText s whole (c mod 100)) (''Type: '' @ showNat (typeNumber kind) @ '', Reason: '' @ reason))"
proof -
  obtain whole c where w: "nearestCents m c" "isDecimal whole" "decimalValue whole = c div 100"
    "formatFloat2 (Fin s m) = amountText s whole (c mod 100)"
    using formatFloat2_Fin [OF assms(3)] by blast
  have "transactionsLog (logIfEnabled e src dst (Fin s m) kind reason) =
          Some (content @ auditLine (clock e (ticks e)) src dst (CurrencySymbol (config e))
                  (amountText s whole (c mod 100)) (''Type: '' @ showNat (typeNumber kind) @ '', Reason: '' @ reason))"
    unfolding logIfEnabled_appends [OF assms(1,2)] w(4) auditLine_def
      formatTime_stampOf [OF assms(4)]
    by simp
  then show ?thesis using w(1,2,3) by blast
qed

text \<open>An operation that returns \<^verbatim>\<open>true\<close> has read the clock once for each account that it
  looked up, has left the configuration and the log as they were until then, and ends
  with the entry of the log, stamped with the next reading of the clock.\<close>

lemma modify_clock_fields:
  "clock (modify k f e) = clock e" "ticks (modify k f e) = ticks e"
  "transactionsLog (modify k f e) = transactionsLog e"
  by (simp_all add: modify_def)

lemma setBalance_success_state:
  assumes "setBalance e username amount = Ok (True, e')"
  shows "\<exists>e0. e' = logIfEnabled e0 [] username amount SET ''Balance set by admin'' \<and>
           config e0 = config e \<and> transactionsLog e0 = transactionsLog e \<and>
           clock e0 = clock e \<and> ticks e0 = ticks e + 1"
proof -
  have ok: "\<not> (flt amount zero64 \<or> flt (MaxBalance (config e)) amount)"
    using assms by (auto simp: setBalance_def)
  obtain r1 where g1: "getAccount e username = Ok r1"
    using assms ok by (cases "getAccount e username") (auto simp: setBalance_def)
  then have r1: "r1 = (ToLower username, touched e username)"
    using getAccount_returns [OF g1] by auto
  have m: "mutex e = Readers 0"
    using assms ok g1 r1 by (cases "mutex e") (auto simp: setBalance_def Lock_def split: if_splits)
  define e3 where "e3 = modify (ToLower username) (\<lambda>a. a\<lparr>Balance := amount\<rparr>) (touched e username)"
  have m3: "mutex e3 = Readers 0" using m by (simp add: e3_def modify_clock_fields)
  have s: "setBalance e username amount =
             andThen (updateTopPlayers e3)
               (\<lambda>e4. Ok (True, logIfEnabled e4 [] username amount SET ''Balance set by admin''))"
    using ok g1 r1 m by (simp add: setBalance_def Lock_def Unlock_def relock e3_def)
  have lim: "0 \<le> TopPlayersLimit (config e3)"
    using assms s updateTopPlayers_negative_limit [OF m3] by (cases "0 \<le> TopPlayersLimit (config e3)") auto
  have "e' = logIfEnabled (e3\<lparr>topPlayers := ranking e3\<rparr>) [] username amount SET ''Balance set by admin''"
    using assms s by (simp add: updateTopPlayers_free [OF m3 lim])
  then show ?thesis
    by (intro exI [of _ "e3\<lparr>topPlayers := ranking e3\<rparr>"]) (simp add: e3_def modify_clock_fields)
qed

lemma addMoney_success_state:
  assumes "addMoney e username amount = Ok (True, e')"
  shows "\<exists>e0. e' = logIfEnabled e0 [] username amount ADD ''Money added'' \<and>
           config e0 = config e \<and> transactionsLog e0 = transactionsLog e \<and>
           clock e0 = clock e \<and> ticks e0 = ticks e + 1"
proof -
  have ok: "\<not> fle amount zero64"
    using assms by (auto simp: addMoney_def)
  obtain r1 where g1: "getAccount e username = Ok r1"
    using assms ok by (cases "getAccount e username") (auto simp: addMoney_def)
  then obtain a where a: "map_of (playerData e) (ToLower username) = Some a"
    and r1: "r1 = (ToLower username, touched e username)"
    using getAccount_returns [OF g1] by auto
  have m: "mutex e = Readers 0"
    using assms ok g1 r1 by (cases "mutex e") (auto simp: addMoney_def Lock_def split: if_splits)
  have d: "deref ((touched e username)\<lparr>mutex := Writer\<rparr>) (ToLower username) = Ok (a\<lparr>LastSeen := clock e (ticks e)\<rparr>)"
    using a by (simp add: deref_def map_of_touched)
  define e3 where "e3 = modify (ToLower username)
      (\<lambda>a. a\<lparr>Balance := fadd (Balance a) amount, TotalEarned := fadd (TotalEarned a) amount\<rparr>)
      (touched e username)"
  have m3: "mutex e3 = Readers 0" using m by (simp add: e3_def modify_clock_fields)
  have s: "andThen (updateTopPlayers e3)
               (\<lambda>e4. Ok (True, logIfEnabled e4 [] username amount ADD ''Money added'')) = Ok (True, e')"
    using assms ok g1 r1 m
    by (auto simp: addMoney_def Lock_def Unlock_def d relock e3_def split: if_splits)
  have lim: "0 \<le> TopPlayersLimit (config e3)"
    using s updateTopPlayers_negative_limit [OF m3] by (cases "0 \<le> TopPlayersLimit (config e3)") auto
  have "e' = logIfEnabled (e3\<lparr>topPlayers := ranking e3\<rparr>) [] username amount ADD ''Money added''"
    using s by (simp add: updateTopPlayers_free [OF m3 lim])
  then show ?thesis
    by (intro exI [of _ "e3\<lparr>topPlayers := ranking e3\<rparr>"]) (simp add: e3_def modify_clock_fields)
qed

lemma subtractMoney_success_state:
  assumes "subtractMoney e username amount = Ok (True, e')"
  shows "\<exists>e0. e' = logIfEnabled e0 username [] amount SUBTRACT ''Money subtracted'' \<and>
           config e0 = config e \<and> transactionsLog e0 = transactionsLog e \<and>
           clock e0 = clock e \<and> ticks e0 = ticks e + 1"
proof -
  have ok: "\<not> fle amount zero64"
    using assms by (auto simp: subtractMoney_def)
  obtain r1 where g1: "getAccount e username = Ok r1"
    using assms ok by (cases "getAccount e username") (auto simp: subtractMoney_def)
  then obtain a where a: "map_of (playerData e) (ToLower username) = Some a"
    and r1: "r1 = (ToLower username, touched e username)"
    using getAccount_returns [OF g1] by auto
  have m: "mutex e = Readers 0"
    using assms ok g1 r1 by (cases "mutex e") (auto simp: subtractMoney_def Lock_def split: if_splits)
  have d: "deref ((touched e username)\<lparr>mutex := Writer\<rparr>) (ToLower username) = Ok (a\<lparr>LastSeen := clock e (ticks e)\<rparr>)"
    using a by (simp add: deref_def map_of_touched)
  define e3 where "e3 = modify (ToLower username)
      (\<lambda>a. a\<lparr>Balance := fsub (Balance a) amount, TotalSpent := fadd (TotalSpent a) amount\<rparr>)
      (touched e username)"
  have m3: "mutex e3 = Readers 0" using m by (simp add: e3_def modify_clock_fields)
  have s: "andThen (updateTopPlayers e3)
               (\<lambda>e4. Ok (True, logIfEnabled e4 username [] amount SUBTRACT ''Money subtracted'')) = Ok (True, e')"
    using assms ok g1 r1 m
    by (auto simp: subtractMoney_def Lock_def Unlock_def d relock e3_def split: if_splits)
  have lim: "0 \<le> TopPlayersLimit (config e3)"
    using s updateTopPlayers_negative_limit [OF m3] by (cases "0 \<le> TopPlayersLimit (config e3)") auto
  have "e' = logIfEnabled (e3\<lparr>topPlayers := ranking e3\<rparr>) username [] amount SUBTRACT ''Money subtracted''"
    using s by (simp add: updateTopPlayers_free [OF m3 lim])
  then show ?thesis
    by (intro exI [of _ "e3\<lparr>topPlayers := ranking e3\<rparr>"]) (simp add: e3_def modify_clock_fields)
qed

lemma relock_twice:
  "mutex e = Readers 0 \<Longrightarrow>
   (modify k f (modify j g (e\<lparr>mutex := Writer\<rparr>)))\<lparr>mutex := Readers 0\<rparr> = modify k f (modify j g e)"
  by (auto simp: modify_def intro!: EconomyPlugin.equality)

lemma transferMoney_success_state:
  assumes "transferMoney e from to amount = Ok (True, e')"
  shows "\<exists>e0. e' = logIfEnabled e0 from to amount TRANSFER ''Money transfer'' \<and>
           config e0 = config e \<and> transactionsLog e0 = transactionsLog e \<and>
           clock e0 = clock e \<and> ticks e0 = ticks e + 2"
proof -
  have ok: "\<not> fle amount zero64" and ne: "ToLower from \<noteq> ToLower to"
    using assms by (auto simp: transferMoney_def)
  obtain r1 where g1: "getAccount e from = Ok r1"
    using assms ok ne by (cases "getAccount e from") (auto simp: transferMoney_def)
  then obtain a where a: "map_of (playerData e) (ToLower from) = Some a"
    and r1: "r1 = (ToLower from, touched e from)"
    using getAccount_returns [OF g1] by auto
  obtain r2 where g2: "getAccount (touched e from) to = Ok r2"
    using assms ok ne g1 r1 by (cases "getAccount (touched e from) to") (auto simp: transferMoney_def)
  then obtain b' where "map_of (playerData (touched e from)) (ToLower to) = Some b'"
    and r2: "r2 = (ToLower to, touched (touched e from) to)"
    using getAccount_returns [OF g2] by auto
  then obtain b where b: "map_of (playerData e) (ToLower to) = Some b"
    using ne by (auto simp: map_of_touched)
  have m: "mutex e = Readers 0"
    using assms ok ne g1 r1 g2 r2
    by (cases "mutex e") (auto simp: transferMoney_def Lock_def split: if_splits)
  have d1: "deref ((touched (touched e from) to)\<lparr>mutex := Writer\<rparr>) (ToLower from) = Ok (a\<lparr>LastSeen := clock e (ticks e)\<rparr>)"
    using a ne by (simp add: deref_def map_of_touched)
  have d2: "deref ((touched (touched e from) to)\<lparr>mutex := Writer\<rparr>) (ToLower to) = Ok (b\<lparr>LastSeen := clock e (ticks e + 1)\<rparr>)"
    using b ne by (simp add: deref_def map_of_touched)
  define e4 where "e4 =
      modify (ToLower to)
        (\<lambda>a. a\<lparr>Balance := fadd (Balance a) amount, TotalEarned := fadd (TotalEarned a) amount\<rparr>)
        (modify (ToLower from)
          (\<lambda>a. a\<lparr>Balance := fsub (Balance a) amount, TotalSpent := fadd (TotalSpent a) amount\<rparr>)
          (touched (touched e from) to))"
  have m4: "mutex e4 = Readers 0" using m by (simp add: e4_def modify_clock_fields)
  have s: "andThen (updateTopPlayers e4)
               (\<lambda>e5. Ok (True, logIfEnabled e5 from to amount TRANSFER ''Money transfer'')) = Ok (True, e')"
    using assms ok ne g1 r1 g2 r2 m
    by (auto simp: transferMoney_def Lock_def Unlock_def d1 d2 relock_twice e4_def split: if_splits)
  have lim: "0 \<le> TopPlayersLimit (config e4)"
    using s updateTopPlayers_negative_limit [OF m4] by (cases "0 \<le> TopPlayersLimit (config e4)") auto
  have "e' = logIfEnabled (e4\<lparr>topPlayers := ranking e4\<rparr>) from to amount TRANSFER ''Money transfer''"
    using s by (simp add: updateTopPlayers_free [OF m4 lim])
  then show ?thesis
    by (intro exI [of _ "e4\<lparr>topPlayers := ranking e4\<rparr>"]) (simp add: e4_def modify_clock_fields)
qed

lemma kind_text:
  "showNat 0 = ''0''" "showNat (Suc 0) = ''1''" "showNat 1 = ''1''" "showNat 2 = ''2''"
  "showNat 3 = ''3''"
  by (simp_all add: showNat_small digitChar_def char_of_def bit_Suc_0_iff)

lemma success_appends_line:
  assumes "e' = logIfEnabled e0 from to (Fin s m) type reason"
    and "config e0 = config e" and "transactionsLog e0 = transactionsLog e"
    and "clock e0 = clock e" and "ticks e0 = ticks e + n"
    and "EnableLogging (config e)" and "transactionsLog e = Some content" and "0 \<le> m"
    and "civil (clock e (ticks e + n))"
  shows "\<exists>whole c. nearestCents m c \<and> isDecimal whole \<and> decimalValue whole = c div 100 \<and>
           transactionsLog e' =
             Some (content @ auditLine (clock e (ticks e + n)) from to (CurrencySymbol (config e))
                     (amountText s whole (c mod 100)) (''Type: '' @ showNat (typeNumber type) @ '', Reason: '' @ reason))"
  using logIfEnabled_auditLine
    [where e = e0 and content = content and m = m and s = s and src = "from" and dst = to
       and kind = type and reason = reason] assms
  by simp

text \<open>The amount \<open>0.375\<close> lies half way between two numbers of cents; the even one is
  printed.\<close>

lemma floor_cents: "\<lfloor>75 / 2 :: rat\<rfloor> = 37"
  by (simp add: floor_eq_iff)

lemma formatFloat2_tie: "formatFloat2 (Fin False (3 / 8)) = ''0.38''"
proof -
  have "roundHalfEven (75 / 2) = 38"
    by (simp add: roundHalfEven_def floor_cents)
  then show ?thesis
    by (simp add: formatFloat2_def padZero_def showNat_small showNat_step digitChar_def char_of_def
        bit_Suc_0_iff)
qed

section \<open>The claims\<close>

text \<open>The two example ledgers are what \<^verbatim>\<open>loadPlayerData\<close> makes of the freshly built
  plugin and the two files.\<close>

lemma demoLedger_loaded: "loadPlayerData freshPlugin (Some demoFile) = Ok demoLedger"
  by (simp add: lock_defs op_defs demo_defs sort_defs float_defs Let_def)

lemma testLedger_loaded: "loadPlayerData freshPlugin (Some testFile) = Ok testLedger"
  by (simp add: lock_defs op_defs demo_defs sort_defs float_defs Let_def)

text \<open>
  Claim C1: \<^verbatim>\<open>transfer\<close> is all-or-nothing; it fails if the amount exceeds the source
  balance, and then neither balance changes. The code does not fail such a transfer when
  the destination is not in the store yet. In the ledger of three accounts Alice holds 1;
  a transfer of 10 from Alice to the unknown Dave does not return \<^verbatim>\<open>false\<close>: it never
  returns. \<^verbatim>\<open>getAccount\<close> calls \<^verbatim>\<open>createAccount\<close>, which stores Dave's account with the
  default balance and then waits, with the write lock held, for the read lock that
  \<^verbatim>\<open>updateTopPlayers\<close> asks for.
\<close>

theorem transferMoney_unknown_destination_blocks:
  "flt (Fin False 1) (Fin False 10) \<and>
   (case transferMoney demoLedger ''Alice'' ''Dave'' (Fin False 10) of
      Ok r \<Rightarrow> False
    | Blocked s \<Rightarrow>
        mutex s = Writer \<and>
        balances s = [(''alice'', Fin False 1), (''bob'', Fin False 5), (''carol'', Fin False 2),
                      (''dave'', Fin False 1000)]
    | Panic \<Rightarrow> False)"
  by (simp add: transferMoney_def lock_defs op_defs demo_defs char_defs float_defs Let_def)

text \<open>
  Claim C2: every ledger operation keeps each balance \<open>b\<close> within \<open>0 \<le> b \<le> maxBalance\<close>.
  The checks of the code compare with \<^verbatim>\<open><\<close>, \<^verbatim>\<open><=\<close> and \<^verbatim>\<open>>\<close>, which are all false
  for a NaN, so a NaN amount passes them. In the ledger of three accounts, where the
  invariant holds and the default balance is in range, \<^verbatim>\<open>subtractMoney\<close> of NaN from Bob
  reports success and leaves Bob's balance NaN, which is not in the range. (For every
  amount that is not a NaN the operations keep the invariant: \<open>perform_safe\<close>.)
\<close>

theorem subtractMoney_NaN_leaves_range:
  "balancesInRange demoLedger \<and>
   fle zero64 (DefaultBalance (config demoLedger)) \<and>
   fle (DefaultBalance (config demoLedger)) (MaxBalance (config demoLedger)) \<and>
   (case subtractMoney demoLedger ''Bob'' NaN of
      Ok (ok, s) \<Rightarrow>
        ok \<and> \<not> balancesInRange s \<and>
        balances s = [(''alice'', Fin False 1), (''bob'', NaN), (''carol'', Fin False 2)]
    | Blocked s \<Rightarrow> False
    | Panic \<Rightarrow> False)"
  by (simp add: subtractMoney_def lock_defs op_defs demo_defs char_defs float_defs sort_defs Let_def)

text \<open>
  Claim C3: for every user name and amount \<open>a > 0\<close> with \<open>balance + a \<le> maxBalance\<close>,
  \<^verbatim>\<open>credit\<close> succeeds and raises the balance and \<^verbatim>\<open>totalEarned\<close> by \<open>a\<close>. The first
  credit of the specification's scenario, 500 to TestPlayer on the freshly built plugin,
  does not succeed in the code: \<^verbatim>\<open>addMoney\<close> never returns. The account is stored with
  the default balance 1000, the ranking stays empty and the write lock stays held.
\<close>

theorem addMoney_unknown_account_blocks:
  "(case addMoney freshPlugin ''TestPlayer'' (Fin False 500) of
      Ok r \<Rightarrow> False
    | Blocked s \<Rightarrow>
        mutex s = Writer \<and> balances s = [(''testplayer'', Fin False 1000)] \<and> topPlayers s = []
    | Panic \<Rightarrow> False)"
  by (simp add: addMoney_def lock_defs op_defs demo_defs char_defs float_defs Let_def)

text \<open>
  Claim C4: for every user name and amount \<open>a\<close> above the balance, \<^verbatim>\<open>debit\<close> fails (with
  InsufficientFunds; the code has \<^verbatim>\<open>false\<close> for every failure) and the balance is
  unchanged. For a name that is not in the store the code does not fail: a debit of 2000
  from TestPlayer on the freshly built plugin, whose account would hold the default 1000,
  never returns.
\<close>

theorem subtractMoney_unknown_account_blocks:
  "flt (DefaultBalance (config freshPlugin)) (Fin False 2000) \<and>
   (case subtractMoney freshPlugin ''TestPlayer'' (Fin False 2000) of
      Ok r \<Rightarrow> False
    | Blocked s \<Rightarrow> mutex s = Writer \<and> balances s = [(''testplayer'', Fin False 1000)]
    | Panic \<Rightarrow> False)"
  by (simp add: subtractMoney_def lock_defs op_defs demo_defs char_defs float_defs Let_def)

text \<open>
  Claim C5: \<^verbatim>\<open>setBalance\<close> succeeds if and only if \<open>0 \<le> x \<le> maxBalance\<close>, and fails for
  every other \<open>x\<close> with the balance unchanged. NaN is not in the range, and
  \<^verbatim>\<open>setBalance\<close> of NaN for Bob reports success and sets Bob's balance to NaN: the guard
  \<^verbatim>\<open>amount < 0 || amount > MaxBalance\<close> is false for a NaN.
\<close>

theorem setBalance_accepts_NaN:
  "\<not> (fle zero64 NaN \<and> fle NaN (MaxBalance (config demoLedger))) \<and>
   (case setBalance demoLedger ''Bob'' NaN of
      Ok (ok, s) \<Rightarrow>
        ok \<and> balances s = [(''alice'', Fin False 1), (''bob'', NaN), (''carol'', Fin False 2)]
    | Blocked s \<Rightarrow> False
    | Panic \<Rightarrow> False)"
  by (simp add: setBalance_def lock_defs op_defs demo_defs char_defs float_defs sort_defs Let_def)

text \<open>
  Claim C6: after any sequence of operations the ranking has length
  \<open>min topPlayersLimit accountCount\<close> and is sorted non-increasing by balance. The ledger
  of three accounts is ranked 5, 2, 1. After \<^verbatim>\<open>addMoney\<close> of NaN to Bob, which reports
  success, the recomputed ranking reads 1, NaN, 2: the loops of \<^verbatim>\<open>updateTopPlayers\<close>
  swap two neighbours only when the left balance is less than the right one, which is
  never the case next to a NaN, so the balance 1 stays in front of the balance 2. (After
  every run of calls with amounts that are not NaN the ranking is in order and of the
  claimed length: \<open>performAll_wellFormed\<close>.)
\<close>

theorem ranking_unsorted_after_NaN:
  "descending (topBalances demoLedger) \<and>
   (case addMoney demoLedger ''Bob'' NaN of
      Ok (ok, s) \<Rightarrow>
        ok \<and> topBalances s = [Fin False 1, NaN, Fin False 2] \<and> \<not> descending (topBalances s)
    | Blocked s \<Rightarrow> False
    | Panic \<Rightarrow> False)"
  by (simp add: addMoney_def lock_defs op_defs demo_defs char_defs float_defs sort_defs Let_def)

text \<open>
  Claim C7 is about two goroutines that call \<^verbatim>\<open>getAccount\<close> at the same time, which the
  calls modelled here, one after the other, do not express. What can be said of one call:
  \<^verbatim>\<open>getAccount\<close> looks the name up under the read lock, gives the lock back, and only
  then calls \<^verbatim>\<open>createAccount\<close>, which starts from the unlocked state and takes the
  write lock itself.
\<close>

lemma getAccount_missing_calls_createAccount:
  "mutex e = Readers 0 \<Longrightarrow> map_of (playerData e) (ToLower username) = None \<Longrightarrow>
   getAccount e username = createAccount e username"
  by (simp add: getAccount_def RLock_def RUnlock_def mutex_update_same)

text \<open>
  Claim C8: each audit-log line has the shape of the format string, and a credit of 500 to
  TestPlayer with the symbol \<^verbatim>\<open>$\<close> is claimed to yield exactly
  \<^verbatim>\<open>[2024-01-01 12:00:00] -> TestPlayer: $500.00 (Type: 0, Reason: Money added)\<close>. The
  entry that the code builds for this transaction is not that string, with or without the
  line feed that ends an entry: the format string puts one space after the bracket and
  one before the arrow, around a source account that is empty here.
\<close>

theorem logEntry_credit_counterexample:
  "logEntry freshPlugin
     \<lparr>From = [], To = ''TestPlayer'', Amount = Fin False 500, Type = ADD,
      Timestamp = demoClock 0, Reason = ''Money added''\<rparr>
   \<noteq> ''[2024-01-01 12:00:00] -> TestPlayer: $500.00 (Type: 0, Reason: Money added)'' \<and>
   logEntry freshPlugin
     \<lparr>From = [], To = ''TestPlayer'', Amount = Fin False 500, Type = ADD,
      Timestamp = demoClock 0, Reason = ''Money added''\<rparr>
   \<noteq> ''[2024-01-01 12:00:00] -> TestPlayer: $500.00 (Type: 0, Reason: Money added)'' @ [CHR 0x0A]"
  by (simp add: format_defs demo_defs float_defs)

text \<open>
  Claim C8, amended: with logging on and the log file open, each operation that returns
  \<^verbatim>\<open>true\<close> for a finite amount appends to the log exactly one line
  \<^verbatim>\<open>[YYYY-MM-DD HH:MM:SS] from -> to: SYMBOLamount (Type: k, Reason: r)\<close> and a line feed.
  The stamp is the clock reading taken for the entry (the one after the lookups of the
  accounts), when it is civil; the amount is a minus sign when the sign bit is set, the
  decimal numeral of the whole part, a point and the two digits of the cents, the cents
  being nearest to a hundred times the magnitude, ties to the even number; \<open>from\<close>,
  \<open>to\<close>, \<open>k\<close> and \<open>r\<close> are: nothing, the user name as given, 0 and
  \<^verbatim>\<open>Money added\<close> for a credit; the user name, nothing, 1 and \<^verbatim>\<open>Money subtracted\<close> for a
  debit; nothing, the user name, 2 and \<^verbatim>\<open>Balance set by admin\<close> for a set; the two names, 3
  and \<^verbatim>\<open>Money transfer\<close> for a transfer. One space follows the bracket and one precedes the
  arrow also when the source is empty, so that a credit of 500 to TestPlayer appends
  \<^verbatim>\<open>[2024-01-01 12:00:00]  -> TestPlayer: $500.00 (Type: 0, Reason: Money added)\<close> with two
  spaces before the arrow. \<^verbatim>\<open>formatMoney\<close> prints the symbol and the same text of the amount.
\<close>

theorem audit_line_shape:
  assumes "EnableLogging (config e)" and "transactionsLog e = Some content" and "0 \<le> m"
    and "civil (clock e (ticks e + 1))" and "civil (clock e (ticks e + 2))"
  shows "(\<forall>e'. addMoney e username (Fin s m) = Ok (True, e') \<longrightarrow>
            (\<exists>whole c. nearestCents m c \<and> isDecimal whole \<and> decimalValue whole = c div 100 \<and>
               transactionsLog e' =
                 Some (content @ auditLine (clock e (ticks e + 1)) [] username (CurrencySymbol (config e))
                         (amountText s whole (c mod 100)) ''Type: 0, Reason: Money added''))) \<and>
         (\<forall>e'. subtractMoney e username (Fin s m) = Ok (True, e') \<longrightarrow>
            (\<exists>whole c. nearestCents m c \<and> isDecimal whole \<and> decimalValue whole = c div 100 \<and>
               transactionsLog e' =
                 Some (content @ auditLine (clock e (ticks e + 1)) username [] (CurrencySymbol (config e))
                         (amountText s whole (c mod 100)) ''Type: 1, Reason: Money subtracted''))) \<and>
         (\<forall>e'. setBalance e username (Fin s m) = Ok (True, e') \<longrightarrow>
            (\<exists>whole c. nearestCents m c \<and> isDecimal whole \<and> decimalValue whole = c div 100 \<and>
               transactionsLog e' =
                 Some (content @ auditLine (clock e (ticks e + 1)) [] username (CurrencySymbol (config e))
                         (amountText s whole (c mod 100)) ''Type: 2, Reason: Balance set by admin''))) \<and>
         (\<forall>e'. transferMoney e src dst (Fin s m) = Ok (True, e') \<longrightarrow>
            (\<exists>whole c. nearestCents m c \<and> isDecimal whole \<and> decimalValue whole = c div 100 \<and>
               transactionsLog e' =
                 Some (content @ auditLine (clock e (ticks e + 2)) src dst (CurrencySymbol (config e))
                         (amountText s whole (c mod 100)) ''Type: 3, Reason: Money transfer''))) \<and>
         (\<exists>whole c. nearestCents m c \<and> isDecimal whole \<and> decimalValue whole = c div 100 \<and>
            formatMoney e (Fin s m) = CurrencySymbol (config e) @ amountText s whole (c mod 100))"
proof (intro conjI allI impI)
  fix e'
  assume "addMoney e username (Fin s m) = Ok (True, e')"
  then obtain e0 where "e' = logIfEnabled e0 [] username (Fin s m) ADD ''Money added''"
    "config e0 = config e" "transactionsLog e0 = transactionsLog e" "clock e0 = clock e"
    "ticks e0 = ticks e + 1"
    using addMoney_success_state by blast
  from success_appends_line [OF this assms(1,2,3,4)]
  show "\<exists>whole c. nearestCents m c \<and> isDecimal whole \<and> decimalValue whole = c div 100 \<and>
          transactionsLog e' =
            Some (content @ auditLine (clock e (ticks e + 1)) [] username (CurrencySymbol (config e))
                    (amountText s whole (c mod 100)) ''Type: 0, Reason: Money added'')"
    by (simp add: kind_text)
next
  fix e'
  assume "subtractMoney e username (Fin s m) = Ok (True, e')"
  then obtain e0 where "e' = logIfEnabled e0 username [] (Fin s m) SUBTRACT ''Money subtracted''"
    "config e0 = config e" "transactionsLog e0 = transactionsLog e" "clock e0 = clock e"
    "ticks e0 = ticks e + 1"
    using subtractMoney_success_state by blast
  from success_appends_line [OF this assms(1,2,3,4)]
  show "\<exists>whole c. nearestCents m c \<and> isDecimal whole \<and> decimalValue whole = c div 100 \<and>
          transactionsLog e' =
            Some (content @ auditLine (clock e (ticks e + 1)) username [] (CurrencySymbol (config e))
                    (amountText s whole (c mod 100)) ''Type: 1, Reason: Money subtracted'')"
    by (simp add: kind_text)
next
  fix e'
  assume "setBalance e username (Fin s m) = Ok (True, e')"
  then obtain e0 where "e' = logIfEnabled e0 [] username (Fin s m) SET ''Balance set by admin''"
    "config e0 = config e" "transactionsLog e0 = transactionsLog e" "clock e0 = clock e"
    "ticks e0 = ticks e + 1"
    using setBalance_success_state by blast
  from success_appends_line [OF this assms(1,2,3,4)]
  show "\<exists>whole c. nearestCents m c \<and> isDecimal whole \<and> decimalValue whole = c div 100 \<and>
          transactionsLog e' =
            Some (content @ auditLine (clock e (ticks e + 1)) [] username (CurrencySymbol (config e))
                    (amountText s whole (c mod 100)) ''Type: 2, Reason: Balance set by admin'')"
    by (simp add: kind_text)
next
  fix e'
  assume "transferMoney e src dst (Fin s m) = Ok (True, e')"
  then obtain e0 where "e' = logIfEnabled e0 src dst (Fin s m) TRANSFER ''Money transfer''"
    "config e0 = config e" "transactionsLog e0 = transactionsLog e" "clock e0 = clock e"
    "ticks e0 = ticks e + 2"
    using transferMoney_success_state by blast
  from success_appends_line [OF this assms(1,2,3,5)]
  show "\<exists>whole c. nearestCents m c \<and> isDecimal whole \<and> decimalValue whole = c div 100 \<and>
          transactionsLog e' =
            Some (content @ auditLine (clock e (ticks e + 2)) src dst (CurrencySymbol (config e))
                    (amountText s whole (c mod 100)) ''Type: 3, Reason: Money transfer'')"
    by (simp add: kind_text)
next
  show "\<exists>whole c. nearestCents m c \<and> isDecimal whole \<and> decimalValue whole = c div 100 \<and>
          formatMoney e (Fin s m) = CurrencySymbol (config e) @ amountText s whole (c mod 100)"
    using formatFloat2_Fin [OF assms(3), of s] by (simp add: formatMoney_def)
qed

text \<open>The theorem at work: the credit of the specification's example, and a debit, a set
  with an amount half way between two numbers of cents, and a transfer under the clock of
  March, each with the line that it appends.\<close>

theorem audit_line_shape_witness:
  "(\<exists>e' whole c.
      addMoney testLedger ''TestPlayer'' (Fin False 500) = Ok (True, e') \<and>
      transactionsLog e' =
        Some (''[2024-01-01 12:00:00]  -> TestPlayer: $500.00 (Type: 0, Reason: Money added)'' @
              [CHR 0x0A]) \<and>
      nearestCents 500 c \<and> isDecimal whole \<and> decimalValue whole = c div 100 \<and>
      transactionsLog e' =
        Some ([] @ auditLine (demoClock 1) [] ''TestPlayer'' ''$'' (amountText False whole (c mod 100))
                     ''Type: 0, Reason: Money added'')) \<and>
   (\<exists>e' whole c.
      subtractMoney marchLedger ''Bob'' (Fin False 2) = Ok (True, e') \<and>
      transactionsLog e' =
        Some (''[2024-03-07 09:05:41] Bob -> : $2.00 (Type: 1, Reason: Money subtracted)'' @
              [CHR 0x0A]) \<and>
      nearestCents 2 c \<and> isDecimal whole \<and> decimalValue whole = c div 100 \<and>
      transactionsLog e' =
        Some ([] @ auditLine (marchClock 1) ''Bob'' [] ''$'' (amountText False whole (c mod 100))
                     ''Type: 1, Reason: Money subtracted'')) \<and>
   (\<exists>e' whole c.
      setBalance marchLedger ''Carol'' (Fin False (3 / 8)) = Ok (True, e') \<and>
      transactionsLog e' =
        Some (''[2024-03-07 09:05:41]  -> Carol: $0.38 (Type: 2, Reason: Balance set by admin)'' @
              [CHR 0x0A]) \<and>
      nearestCents (3 / 8) c \<and> isDecimal whole \<and> decimalValue whole = c div 100 \<and>
      transactionsLog e' =
        Some ([] @ auditLine (marchClock 1) [] ''Carol'' ''$'' (amountText False whole (c mod 100))
                     ''Type: 2, Reason: Balance set by admin'')) \<and>
   (\<exists>e' whole c.
      transferMoney marchLedger ''Bob'' ''Carol'' (Fin False 3) = Ok (True, e') \<and>
      transactionsLog e' =
        Some (''[2024-03-07 09:05:42] Bob -> Carol: $3.00 (Type: 3, Reason: Money transfer)'' @
              [CHR 0x0A]) \<and>
      nearestCents 3 c \<and> isDecimal whole \<and> decimalValue whole = c div 100 \<and>
      transactionsLog e' =
        Some ([] @ auditLine (marchClock 2) ''Bob'' ''Carol'' ''$'' (amountText False whole (c mod 100))
                     ''Type: 3, Reason: Money transfer'')) \<and>
   (\<exists>whole c.
      formatMoney marchLedger (Fin False (3 / 8)) = ''$0.38'' \<and>
      nearestCents (3 / 8) c \<and> isDecimal whole \<and> decimalValue whole = c div 100 \<and>
      formatMoney marchLedger (Fin False (3 / 8)) = ''$'' @ amountText False whole (c mod 100))"
proof -
  have test: "EnableLogging (config testLedger)" "transactionsLog testLedger = Some []"
    "civil (clock testLedger (ticks testLedger + 1))" "civil (clock testLedger (ticks testLedger + 2))"
    "clock testLedger = demoClock" "ticks testLedger = 0" "CurrencySymbol (config testLedger) = ''$''"
    by (simp_all add: demo_defs civil_def)
  have march: "EnableLogging (config marchLedger)" "transactionsLog marchLedger = Some []"
    "civil (clock marchLedger (ticks marchLedger + 1))" "civil (clock marchLedger (ticks marchLedger + 2))"
    "clock marchLedger = marchClock" "ticks marchLedger = 0" "CurrencySymbol (config marchLedger) = ''$''"
    by (simp_all add: marchLedger_def marchClock_def demo_defs civil_def)
  have credit: "\<exists>e'. addMoney testLedger ''TestPlayer'' (Fin False 500) = Ok (True, e') \<and>
     transactionsLog e' =
       Some (''[2024-01-01 12:00:00]  -> TestPlayer: $500.00 (Type: 0, Reason: Money added)'' @ [CHR 0x0A])"
    by (simp add: addMoney_def lock_defs op_defs demo_defs char_defs float_defs
        sort_defs format_defs Let_def)
  have debit: "\<exists>e'. subtractMoney marchLedger ''Bob'' (Fin False 2) = Ok (True, e') \<and>
     transactionsLog e' =
       Some (''[2024-03-07 09:05:41] Bob -> : $2.00 (Type: 1, Reason: Money subtracted)'' @ [CHR 0x0A])"
    by (simp add: subtractMoney_def marchLedger_def marchClock_def lock_defs op_defs demo_defs char_defs
        float_defs sort_defs format_defs Let_def)
  have setting: "\<exists>e'. setBalance marchLedger ''Carol'' (Fin False (3 / 8)) = Ok (True, e') \<and>
     transactionsLog e' =
       Some (''[2024-03-07 09:05:41]  -> Carol: $0.38 (Type: 2, Reason: Balance set by admin)'' @ [CHR 0x0A])"
    by (simp add: setBalance_def marchLedger_def marchClock_def lock_defs op_defs demo_defs char_defs
        signedVal_def sort_defs logEntry_def formatTime_def padZero_def showNat_small showNat_step
        digitChar_def formatFloat2_tie Let_def)
  have transfer: "\<exists>e'. transferMoney marchLedger ''Bob'' ''Carol'' (Fin False 3) = Ok (True, e') \<and>
     transactionsLog e' =
       Some (''[2024-03-07 09:05:42] Bob -> Carol: $3.00 (Type: 3, Reason: Money transfer)'' @ [CHR 0x0A])"
    by (simp add: transferMoney_def marchLedger_def marchClock_def lock_defs op_defs demo_defs char_defs
        float_defs sort_defs format_defs Let_def)
  have money: "formatMoney marchLedger (Fin False (3 / 8)) = ''$0.38''"
    by (simp add: formatMoney_def march(7) formatFloat2_tie)
  have c1: "\<exists>e' whole c.
      addMoney testLedger ''TestPlayer'' (Fin False 500) = Ok (True, e') \<and>
      transactionsLog e' =
        Some (''[2024-01-01 12:00:00]  -> TestPlayer: $500.00 (Type: 0, Reason: Money added)'' @
              [CHR 0x0A]) \<and>
      nearestCents 500 c \<and> isDecimal whole \<and> decimalValue whole = c div 100 \<and>
      transactionsLog e' =
        Some ([] @ auditLine (demoClock 1) [] ''TestPlayer'' ''$'' (amountText False whole (c mod 100))
                     ''Type: 0, Reason: Money added'')"
  proof -
    from credit obtain e' where run: "addMoney testLedger ''TestPlayer'' (Fin False 500) = Ok (True, e')"
      and line: "transactionsLog e' =
        Some (''[2024-01-01 12:00:00]  -> TestPlayer: $500.00 (Type: 0, Reason: Money added)'' @
              [CHR 0x0A])"
      by (elim exE conjE)
    have "0 \<le> (500 :: rat)" by simp
    from audit_line_shape [where e = testLedger and content = "[]" and m = 500 and s = False
        and username = "''TestPlayer''", OF test(1,2) this test(3,4), unfolded test(5,6,7) add_0,
        THEN conjunct1, rule_format, OF run]
    obtain whole c where "nearestCents 500 c" "isDecimal whole" "decimalValue whole = c div 100"
      "transactionsLog e' =
         Some ([] @ auditLine (demoClock 1) [] ''TestPlayer'' ''$''
                      (amountText False whole (c mod 100)) ''Type: 0, Reason: Money added'')"
      by (elim exE conjE)
    with run line show ?thesis
      by (intro exI [of _ e'] exI [of _ whole] exI [of _ c]) simp
  qed
  have c2: "\<exists>e' whole c.
      subtractMoney marchLedger ''Bob'' (Fin False 2) = Ok (True, e') \<and>
      transactionsLog e' =
        Some (''[2024-03-07 09:05:41] Bob -> : $2.00 (Type: 1, Reason: Money subtracted)'' @
              [CHR 0x0A]) \<and>
      nearestCents 2 c \<and> isDecimal whole \<and> decimalValue whole = c div 100 \<and>
      transactionsLog e' =
        Some ([] @ auditLine (marchClock 1) ''Bob'' [] ''$'' (amountText False whole (c mod 100))
                     ''Type: 1, Reason: Money subtracted'')"
  proof -
    from debit obtain e' where run: "subtractMoney marchLedger ''Bob'' (Fin False 2) = Ok (True, e')"
      and line: "transactionsLog e' =
        Some (''[2024-03-07 09:05:41] Bob -> : $2.00 (Type: 1, Reason: Money subtracted)'' @
              [CHR 0x0A])"
      by (elim exE conjE)
    have "0 \<le> (2 :: rat)" by simp
    from audit_line_shape [where e = marchLedger and content = "[]" and m = 2 and s = False
        and username = "''Bob''", OF march(1,2) this march(3,4), unfolded march(5,6,7) add_0,
        THEN conjunct2, THEN conjunct1, rule_format, OF run]
    obtain whole c where "nearestCents 2 c" "isDecimal whole" "decimalValue whole = c div 100"
      "transactionsLog e' =
         Some ([] @ auditLine (marchClock 1) ''Bob'' [] ''$''
                      (amountText False whole (c mod 100)) ''Type: 1, Reason: Money subtracted'')"
      by (elim exE conjE)
    with run line show ?thesis
      by (intro exI [of _ e'] exI [of _ whole] exI [of _ c]) simp
  qed
  have c3: "\<exists>e' whole c.
      setBalance marchLedger ''Carol'' (Fin False (3 / 8)) = Ok (True, e') \<and>
      transactionsLog e' =
        Some (''[2024-03-07 09:05:41]  -> Carol: $0.38 (Type: 2, Reason: Balance set by admin)'' @
              [CHR 0x0A]) \<and>
      nearestCents (3 / 8) c \<and> isDecimal whole \<and> decimalValue whole = c div 100 \<and>
      transactionsLog e' =
        Some ([] @ auditLine (marchClock 1) [] ''Carol'' ''$'' (amountText False whole (c mod 100))
                     ''Type: 2, Reason: Balance set by admin'')"
  proof -
    from setting obtain e' where run: "setBalance marchLedger ''Carol'' (Fin False (3 / 8)) = Ok (True, e')"
      and line: "transactionsLog e' =
        Some (''[2024-03-07 09:05:41]  -> Carol: $0.38 (Type: 2, Reason: Balance set by admin)'' @
              [CHR 0x0A])"
      by (elim exE conjE)
    have "0 \<le> (3 / 8 :: rat)" by simp
    from audit_line_shape [where e = marchLedger and content = "[]" and m = "3 / 8" and s = False
        and username = "''Carol''", OF march(1,2) this march(3,4), unfolded march(5,6,7) add_0,
        THEN conjunct2, THEN conjunct2, THEN conjunct1, rule_format, OF run]
    obtain whole c where "nearestCents (3 / 8) c" "isDecimal whole" "decimalValue whole = c div 100"
      "transactionsLog e' =
         Some ([] @ auditLine (marchClock 1) [] ''Carol'' ''$''
                      (amountText False whole (c mod 100)) ''Type: 2, Reason: Balance set by admin'')"
      by (elim exE conjE)
    with run line show ?thesis
      by (intro exI [of _ e'] exI [of _ whole] exI [of _ c]) simp
  qed
  have c4: "\<exists>e' whole c.
      transferMoney marchLedger ''Bob'' ''Carol'' (Fin False 3) = Ok (True, e') \<and>
      transactionsLog e' =
        Some (''[2024-03-07 09:05:42] Bob -> Carol: $3.00 (Type: 3, Reason: Money transfer)'' @
              [CHR 0x0A]) \<and>
      nearestCents 3 c \<and> isDecimal whole \<and> decimalValue whole = c div 100 \<and>
      transactionsLog e' =
        Some ([] @ auditLine (marchClock 2) ''Bob'' ''Carol'' ''$'' (amountText False whole (c mod 100))
                     ''Type: 3, Reason: Money transfer'')"
  proof -
    from transfer obtain e' where run: "transferMoney marchLedger ''Bob'' ''Carol'' (Fin False 3) = Ok (True, e')"
      and line: "transactionsLog e' =
        Some (''[2024-03-07 09:05:42] Bob -> Carol: $3.00 (Type: 3, Reason: Money transfer)'' @
              [CHR 0x0A])"
      by (elim exE conjE)
    have "0 \<le> (3 :: rat)" by simp
    from audit_line_shape [where e = marchLedger and content = "[]" and m = 3 and s = False
        and src = "''Bob''" and dst = "''Carol''", OF march(1,2) this march(3,4), unfolded march(5,6,7) add_0,
        THEN conjunct2, THEN conjunct2, THEN conjunct2, THEN conjunct1, rule_format, OF run]
    obtain whole c where "nearestCents 3 c" "isDecimal whole" "decimalValue whole = c div 100"
      "transactionsLog e' =
         Some ([] @ auditLine (marchClock 2) ''Bob'' ''Carol'' ''$''
                      (amountText False whole (c mod 100)) ''Type: 3, Reason: Money transfer'')"
      by (elim exE conjE)
    with run line show ?thesis
      by (intro exI [of _ e'] exI [of _ whole] exI [of _ c]) simp
  qed
  have c5: "\<exists>whole c.
      formatMoney marchLedger (Fin False (3 / 8)) = ''$0.38'' \<and>
      nearestCents (3 / 8) c \<and> isDecimal whole \<and> decimalValue whole = c div 100 \<and>
      formatMoney marchLedger (Fin False (3 / 8)) = ''$'' @ amountText False whole (c mod 100)"
  proof -
    have "0 \<le> (3 / 8 :: rat)" by simp
    from audit_line_shape [where e = marchLedger and content = "[]" and m = "3 / 8" and s = False,
        OF march(1,2) this march(3,4), unfolded march(5,6,7) add_0,
        THEN conjunct2, THEN conjunct2, THEN conjunct2, THEN conjunct2]
    obtain whole c where "nearestCents (3 / 8) c" "isDecimal whole" "decimalValue whole = c div 100"
      "formatMoney marchLedger (Fin False (3 / 8)) = ''$'' @ amountText False whole (c mod 100)"
      by (elim exE conjE)
    with money show ?thesis
      by (intro exI [of _ whole] exI [of _ c]) simp
  qed
  from c1 c2 c3 c4 c5 show ?thesis by (intro conjI)
qed

text \<open>
  Claim C9: a transfer with a positive amount between two different names leaves each
  account that did not exist before in the store with the default balance, also when the
  transfer fails. On the freshly built plugin a transfer of 10 from Alice to Bob never
  returns: it stops while Alice's account is created, and Bob's account is never stored.
\<close>

theorem transferMoney_never_creates_destination:
  "(case transferMoney freshPlugin ''Alice'' ''Bob'' (Fin False 10) of
      Ok r \<Rightarrow> False
    | Blocked s \<Rightarrow>
        mutex s = Writer \<and> balances s = [(''alice'', Fin False 1000)] \<and>
        map_of (playerData s) (ToLower ''Bob'') = None
    | Panic \<Rightarrow> False)"
  by (simp add: transferMoney_def lock_defs op_defs demo_defs char_defs float_defs Let_def)

lemma updateTopPlayers_returns:
  "updateTopPlayers e = Ok e' \<Longrightarrow> playerData e' = playerData e"
  by (cases "mutex e")
     (auto simp: updateTopPlayers_def RLock_def RUnlock_def Let_def split: if_splits)

text \<open>
  Claim C10: a successful \<^verbatim>\<open>setBalance\<close> on an account that exists changes only the
  balance and \<^verbatim>\<open>LastSeen\<close> of that account: the account afterwards is the one before
  with these two fields set (so its name, \<^verbatim>\<open>TotalEarned\<close> and \<^verbatim>\<open>TotalSpent\<close> are the
  same), and the account under every other key is the same.
\<close>

theorem setBalance_frame:
  assumes "map_of (playerData e) (ToLower username) = Some a"
    and "setBalance e username amount = Ok (True, e')"
  shows "map_of (playerData e') (ToLower username) =
           Some (a\<lparr>LastSeen := clock e (ticks e), Balance := amount\<rparr>) \<and>
         TotalEarned (the (map_of (playerData e') (ToLower username))) = TotalEarned a \<and>
         TotalSpent (the (map_of (playerData e') (ToLower username))) = TotalSpent a \<and>
         (\<forall>k. k \<noteq> ToLower username \<longrightarrow> map_of (playerData e') k = map_of (playerData e) k)"
proof (cases "mutex e")
  case (Readers n)
  have g: "getAccount e username = Ok (ToLower username, touched e username)"
    using Readers assms(1) by (rule getAccount_existing)
  have n0: "n = 0"
    using assms(2) Readers g by (auto simp: setBalance_def Lock_def split: if_splits)
  let ?e3 = "(modify (ToLower username) (\<lambda>a. a\<lparr>Balance := amount\<rparr>)
               ((touched e username)\<lparr>mutex := Writer\<rparr>))\<lparr>mutex := Readers 0\<rparr>"
  obtain e4 where u: "updateTopPlayers ?e3 = Ok e4"
    and e': "e' = logIfEnabled e4 [] username amount SET ''Balance set by admin''"
    using assms(2) Readers g n0
    by (cases "updateTopPlayers ?e3")
       (auto simp: setBalance_def Lock_def Unlock_def modify_def split: if_splits)
  have "playerData e' = playerData ?e3"
    using updateTopPlayers_returns [OF u] e' by simp
  then show ?thesis
    using assms(1) by (simp add: modify_def map_of_map_entry map_of_touched)
next
  case Writer
  then show ?thesis
    using assms(2) by (auto simp: setBalance_def getAccount_def RLock_def split: if_splits)
qed

theorem setBalance_frame_witness:
  "map_of (playerData demoLedger) (ToLower ''Carol'') = Some (savedAccount ''Carol'' 2) \<and>
   (\<exists>e'. setBalance demoLedger ''Carol'' (Fin False 42) = Ok (True, e') \<and>
      map_of (playerData e') ''carol'' =
        Some ((savedAccount ''Carol'' 2)\<lparr>LastSeen := demoClock 0, Balance := Fin False 42\<rparr>) \<and>
      map_of (playerData e') ''bob'' = Some (savedAccount ''Bob'' 5) \<and>
      map_of (playerData e') ''alice'' = Some (savedAccount ''Alice'' 1))"
proof -
  have h1: "map_of (playerData demoLedger) (ToLower ''Carol'') = Some (savedAccount ''Carol'' 2)"
    by (simp add: demo_defs char_defs)
  have "\<exists>e'. setBalance demoLedger ''Carol'' (Fin False 42) = Ok (True, e') \<and>
          mutex e' = Readers 0 \<and>
          map_of (playerData e') = (map_of (playerData demoLedger))
             (ToLower ''Carol'' \<mapsto> (savedAccount ''Carol'' 2)
                \<lparr>LastSeen := clock demoLedger (ticks demoLedger), Balance := Fin False 42\<rparr>)"
    by (rule setBalance_existing [OF _ _ h1]) (simp_all add: demo_defs float_defs)
  then obtain e' where h2: "setBalance demoLedger ''Carol'' (Fin False 42) = Ok (True, e')"
    by blast
  have lower: "ToLower ''Carol'' = ''carol''"
    by (simp add: char_defs)
  from setBalance_frame [OF h1 h2] h1 h2 lower show ?thesis
    by (auto simp: demo_defs)
qed

end
